theory Spec2Isabelle
  imports Main
begin

section \<open>Strings of the host language\<close>

text \<open>
  A JavaScript string is a sequence of UTF-16 code units; \<open>ternary[i]\<close> and
  \<open>ternary.length\<close> index and count code units. The minus sign U+2212 accepted by the
  numeral codec is one code unit, so a string is modelled as the list of its code units,
  each a number (below \<open>2^16\<close> in every string of the host).
\<close>

type_synonym code_unit = nat
type_synonym js_string = "code_unit list"

abbreviation HYPHEN :: code_unit where "HYPHEN \<equiv> 0x2D"
abbreviation MINUS_SIGN :: code_unit where "MINUS_SIGN \<equiv> 0x2212"
abbreviation UNDERSCORE :: code_unit where "UNDERSCORE \<equiv> 0x5F"
abbreviation ZERO :: code_unit where "ZERO \<equiv> 0x30"
abbreviation PLUS :: code_unit where "PLUS \<equiv> 0x2B"
abbreviation ONE :: code_unit where "ONE \<equiv> 0x31"

section \<open>Numbers of the host language\<close>

text \<open>
  A number of the host language is an IEEE 754 double. The numeral codec only adds and
  multiplies whole numbers, so a finite double is modelled by the integer it holds, and
  \<open>to_double\<close> rounds an integer to the nearest double: 53 significant bits, a tie going
  to the even significand, and a magnitude of \<open>2^1024\<close> or more after rounding going to
  an infinity. Every integer below \<open>2^53\<close> in magnitude is a double. A zero carries no
  sign here: the codec, which starts its sum at \<open>+0\<close>, cannot tell the two zeros apart.
\<close>

datatype number = Finite int | PosInfinity | NegInfinity | NaN

text \<open>The number of binary digits of a natural number.\<close>

function bit_length :: "nat \<Rightarrow> nat" where
  "bit_length n = (if n = 0 then 0 else Suc (bit_length (n div 2)))"
  by pat_completeness auto
termination
  by (relation "measure (\<lambda>n. n)") auto

declare bit_length.simps [simp del]

text \<open>The quotient of \<open>a\<close> by \<open>b\<close> rounded to the nearest integer, a tie to the even one.\<close>

definition round_half_even :: "int \<Rightarrow> int \<Rightarrow> int" where
  "round_half_even a b =
     (let q = a div b; r = a mod b in
      if 2 * r < b then q else if 2 * r > b then q + 1 else if even q then q else q + 1)"

definition to_double :: "int \<Rightarrow> number" where
  "to_double x =
     (let e = bit_length (nat \<bar>x\<bar>) in
      if e \<le> 53 then Finite x
      else
        let ulp = 2 ^ (e - 53); m = round_half_even \<bar>x\<bar> ulp
        in if m * ulp \<ge> 2 ^ 1024 then (if x < 0 then NegInfinity else PosInfinity)
           else Finite (sgn x * (m * ulp)))"

text \<open>The operators \<open>+\<close> and \<open>*\<close> of the host on such numbers.\<close>

fun js_add :: "number \<Rightarrow> number \<Rightarrow> number" where
  "js_add (Finite a) (Finite b) = to_double (a + b)"
| "js_add NaN y = NaN"
| "js_add x NaN = NaN"
| "js_add PosInfinity NegInfinity = NaN"
| "js_add NegInfinity PosInfinity = NaN"
| "js_add PosInfinity y = PosInfinity"
| "js_add x PosInfinity = PosInfinity"
| "js_add NegInfinity y = NegInfinity"
| "js_add x NegInfinity = NegInfinity"

fun js_times :: "number \<Rightarrow> number \<Rightarrow> number" where
  "js_times (Finite a) (Finite b) = to_double (a * b)"
| "js_times NaN y = NaN"
| "js_times x NaN = NaN"
| "js_times (Finite a) PosInfinity =
     (if a = 0 then NaN else if a > 0 then PosInfinity else NegInfinity)"
| "js_times (Finite a) NegInfinity =
     (if a = 0 then NaN else if a > 0 then NegInfinity else PosInfinity)"
| "js_times PosInfinity (Finite b) =
     (if b = 0 then NaN else if b > 0 then PosInfinity else NegInfinity)"
| "js_times NegInfinity (Finite b) =
     (if b = 0 then NaN else if b > 0 then NegInfinity else PosInfinity)"
| "js_times PosInfinity PosInfinity = PosInfinity"
| "js_times PosInfinity NegInfinity = NegInfinity"
| "js_times NegInfinity PosInfinity = NegInfinity"
| "js_times NegInfinity NegInfinity = PosInfinity"

text \<open>
  \<open>Math.pow\<close> of an integer base and a natural exponent. The language standard leaves
  the last bit of its result to the implementation; the model takes the double nearest
  to the exact power. Where the exact power is a double (for the base 3, up to the
  exponent 33) an implementation that errs by less than one unit in the last place
  returns it, so there the model is every such host's \<open>Math.pow\<close>; the first power of 3
  that is not a double is \<open>3^34\<close>, halfway between two doubles.
\<close>

definition Math_pow :: "int \<Rightarrow> nat \<Rightarrow> number" where
  "Math_pow b p = to_double (b ^ p)"

section \<open>Numeral codec\<close>

datatype error =
    InvalidTernaryDigit code_unit
  | InvalidTernaryAt nat js_string
  | ErrorParsingInstruction nat error
  | ProtectedWrite int
  | WordNotFinite nat number





text \<open>
  The \<open>for\<close> loop of \<open>fromBalancedTernary\<close> visits the code units from the last index
  down to index 0; \<open>from_loop\<close> takes them in the order visited, with the running
  \<open>result\<close> and \<open>power\<close> (here \<open>pw\<close>). The statement \<open>result += digit * Math.pow(3, power)\<close>
  is one multiplication and one addition of doubles.
\<close>

fun from_loop :: "code_unit list \<Rightarrow> number \<Rightarrow> nat \<Rightarrow> error + number" where
  "from_loop [] result pw = Inr result"
| "from_loop (ch # rest) result pw =
     (if ch = HYPHEN \<or> ch = MINUS_SIGN \<or> ch = UNDERSCORE then
        from_loop rest (js_add result (js_times (Finite (-1)) (Math_pow 3 pw))) (pw + 1)
      else if ch = ZERO then
        from_loop rest (js_add result (js_times (Finite 0) (Math_pow 3 pw))) (pw + 1)
      else if ch = PLUS \<or> ch = ONE then
        from_loop rest (js_add result (js_times (Finite 1) (Math_pow 3 pw))) (pw + 1)
      else Inl (InvalidTernaryDigit ch))"

definition fromBalancedTernary :: "js_string \<Rightarrow> error + number" where
  "fromBalancedTernary ternary =
     (if ternary = [] then Inr (Finite 0) else from_loop (rev ternary) (Finite 0) 0)"

text \<open>
  The character class \<open>\s\<close> of a regular expression, which is also what \<open>trim\<close> strips:
  the white space and line terminator code points of the language standard.
\<close>

definition is_space :: "code_unit \<Rightarrow> bool" where
  "is_space c \<longleftrightarrow>
     c \<in> {0x09, 0x0A, 0x0B, 0x0C, 0x0D, 0x20, 0xA0, 0x1680,
          0x2000, 0x2001, 0x2002, 0x2003, 0x2004, 0x2005, 0x2006, 0x2007, 0x2008, 0x2009,
          0x200A, 0x2028, 0x2029, 0x202F, 0x205F, 0x3000, 0xFEFF}"

text \<open>\<open>validateTernary\<close>: the regular expression \<open>/^[-\<minus>_0+1\s]*$/\<close>.\<close>

definition validateTernary :: "js_string \<Rightarrow> bool" where
  "validateTernary str =
     list_all (\<lambda>c. c = HYPHEN \<or> c = MINUS_SIGN \<or> c = UNDERSCORE \<or> c = ZERO \<or> c = PLUS
                  \<or> c = ONE \<or> is_space c) str"

section \<open>The emulator\<close>

text \<open>
  The opcode table. A memory word is its own opcode; the operand of a two-word
  instruction is the next memory word.
\<close>

definition HALT :: int where "HALT = 0"
definition ADD :: int where "ADD = 1"
definition SUB :: int where "SUB = -1"
definition LOAD :: int where "LOAD = 2"
definition STORE :: int where "STORE = -2"
definition JMP :: int where "JMP = 3"
definition JZ :: int where "JZ = 4"
definition JNZ :: int where "JNZ = -4"
definition JNP :: int where "JNP = 5"
definition SHL :: int where "SHL = 6"
definition SHR :: int where "SHR = -6"
definition CALL :: int where "CALL = 7"
definition RET :: int where "RET = -7"
definition NEG :: int where "NEG = 8"
definition INC :: int where "INC = 9"
definition DEC :: int where "DEC = -9"
definition LOADI :: int where "LOADI = 10"
definition STOREI :: int where "STOREI = -10"

text \<open>
  Conditional breakpoints \<open>{type, address?, operator, value}\<close> and watches
  \<open>{type, address?, label?}\<close>. A type or operator string outside the ones the code tests
  is \<open>OtherType\<close> or \<open>OtherOperator\<close>; an absent address is \<open>None\<close>.
\<close>

datatype target_type = AccumulatorType | MemoryType | OtherType

datatype comparison = OpEq | OpNe | OpGt | OpLt | OpGe | OpLe | OtherOperator

record condition =
  cond_type :: target_type
  cond_address :: "int option"
  cond_operator :: comparison
  cond_value :: int

record watch =
  watch_type :: target_type
  watch_address :: "int option"
  watch_label :: "js_string option"

text \<open>The object \<open>saveStateToHistory\<close> pushes: copies of six fields of the machine.\<close>

record snapshot =
  snap_accumulator :: int
  snap_programCounter :: int
  snap_instructionRegister :: int
  snap_memory :: "int list"
  snap_callStack :: "int list"
  snap_instructionCount :: nat

text \<open>
  The callbacks \<open>onStateChange\<close>, \<open>onError\<close> and \<open>onHalt\<close> are observers: the model
  records whether each is installed (the code tests it before calling) and appends every
  call to \<open>trace\<close>, with the message as a constructor.
\<close>

datatype halt_message =
    HaltInstructionEncountered
  | BreakpointHitAt int
  | ProgramCounterOutOfBounds
  | ReturnWithEmptyCallStack
  | ConditionalBreakpoint condition
  | EndOfMemoryReached

datatype error_message =
    InstructionLimitReached
  | CallStackOverflow
  | NoExecutionHistory

datatype event = OnStateChange | OnHalt halt_message | OnError error_message

record emulator =
  accumulator :: int
  programCounter :: int
  instructionRegister :: int
  memorySize :: nat
  memory :: "int list"
  callStack :: "int list"
  maxCallDepth :: nat
  breakpoints :: "int set"
  conditionalBreakpoints :: "condition list"
  executionHistory :: "snapshot list"
  maxHistorySize :: nat
  historyEnabled :: bool
  watches :: "watch list"
  protectedMemory :: "int set"
  memoryAccessCounts :: "nat list"
  heatmapEnabled :: bool
  running :: bool
  instructionCount :: nat
  maxInstructions :: nat
  hitBreakpoint :: bool
  onStateChange :: bool
  onError :: bool
  onHalt :: bool
  trace :: "event list"

text \<open>The constructor; the three callbacks start as \<open>null\<close>.\<close>

definition new_emulator :: "nat \<Rightarrow> emulator" where
  "new_emulator msize =
     \<lparr> accumulator = 0, programCounter = 0, instructionRegister = 0,
       memorySize = msize, memory = replicate msize 0,
       callStack = [], maxCallDepth = 10,
       breakpoints = {}, conditionalBreakpoints = [],
       executionHistory = [], maxHistorySize = 1000, historyEnabled = True,
       watches = [], protectedMemory = {},
       memoryAccessCounts = replicate msize 0, heatmapEnabled = False,
       running = False, instructionCount = 0, maxInstructions = 10000,
       hitBreakpoint = False,
       onStateChange = False, onError = False, onHalt = False, trace = [] \<rparr>"

definition fire_onStateChange :: "emulator \<Rightarrow> emulator" where
  "fire_onStateChange s = (if onStateChange s then s\<lparr>trace := trace s @ [OnStateChange]\<rparr> else s)"

definition fire_onHalt :: "halt_message \<Rightarrow> emulator \<Rightarrow> emulator" where
  "fire_onHalt m s = (if onHalt s then s\<lparr>trace := trace s @ [OnHalt m]\<rparr> else s)"

definition fire_onError :: "error_message \<Rightarrow> emulator \<Rightarrow> emulator" where
  "fire_onError m s = (if onError s then s\<lparr>trace := trace s @ [OnError m]\<rparr> else s)"

subsection \<open>History\<close>

definition clearHistory :: "emulator \<Rightarrow> emulator" where
  "clearHistory s = s\<lparr>executionHistory := []\<rparr>"


definition current_snapshot :: "emulator \<Rightarrow> snapshot" where
  "current_snapshot s =
     \<lparr> snap_accumulator = accumulator s,
       snap_programCounter = programCounter s,
       snap_instructionRegister = instructionRegister s,
       snap_memory = memory s,
       snap_callStack = callStack s,
       snap_instructionCount = instructionCount s \<rparr>"

text \<open>\<open>push\<close> appends; when the bound is exceeded, \<open>shift\<close> drops the oldest entry.\<close>

definition saveStateToHistory :: "emulator \<Rightarrow> emulator" where
  "saveStateToHistory s =
     (let state = current_snapshot s;
          s1 = s\<lparr>executionHistory := executionHistory s @ [state]\<rparr>
      in if length (executionHistory s1) > maxHistorySize s1
         then s1\<lparr>executionHistory := tl (executionHistory s1)\<rparr>
         else s1)"

definition stepBack :: "emulator \<Rightarrow> bool \<times> emulator" where
  "stepBack s =
     (if length (executionHistory s) = 0 then (False, fire_onError NoExecutionHistory s)
      else
        let prevState = last (executionHistory s);
            s1 = s\<lparr>executionHistory := butlast (executionHistory s)\<rparr>;
            s2 = s1\<lparr>accumulator := snap_accumulator prevState,
                    programCounter := snap_programCounter prevState,
                    instructionRegister := snap_instructionRegister prevState,
                    memory := snap_memory prevState,
                    callStack := snap_callStack prevState,
                    instructionCount := snap_instructionCount prevState\<rparr>
        in (True, fire_onStateChange s2))"

subsection \<open>Reset and program loading\<close>

definition reset :: "emulator \<Rightarrow> emulator" where
  "reset s =
     (let s1 = s\<lparr>accumulator := 0, programCounter := 0, instructionRegister := 0,
                  memory := replicate (length (memory s)) 0,
                  callStack := [], running := False, instructionCount := 0,
                  hitBreakpoint := False\<rparr>;
          s2 = clearHistory s1;
          s3 = s2\<lparr>memoryAccessCounts := replicate (length (memoryAccessCounts s2)) 0\<rparr>
      in fire_onStateChange s3)"

definition trim :: "js_string \<Rightarrow> js_string" where
  "trim str = rev (dropWhile is_space (rev (dropWhile is_space str)))"

text \<open>
  \<open>split(/\s+/)\<close>: the pieces of the string between maximal runs of white space (the
  empty string gives one empty piece). \<open>pieces\<close> scans the string once, with the piece
  read so far (reversed) and whether the last code unit was white space.
\<close>

fun pieces :: "js_string \<Rightarrow> bool \<Rightarrow> js_string \<Rightarrow> js_string list" where
  "pieces piece gap [] = [rev piece]"
| "pieces piece gap (c # cs) =
     (if is_space c then
        (if gap then pieces [] True cs else rev piece # pieces [] True cs)
      else pieces (c # piece) False cs)"

definition split_spaces :: "js_string \<Rightarrow> js_string list" where
  "split_spaces str = pieces [] False str"

text \<open>
  The loop of \<open>loadProgram\<close> over the tokens, from index \<open>i\<close>. An error leaves the words
  already written in memory. The words of the emulator are modelled as unbounded
  integers (the host keeps them in doubles, which are these integers below \<open>2^53\<close> in
  magnitude), so a token that decodes to a finite double is stored as the integer it
  holds. A token of several hundred symbols can decode to an infinity or to \<open>NaN\<close>, which
  the code stores like any number and an integer word cannot hold: there the model
  stops with \<open>WordNotFinite\<close>, which is no exception of the code, and says nothing about
  such a program.
\<close>

fun load_tokens :: "js_string list \<Rightarrow> nat \<Rightarrow> emulator \<Rightarrow> (error \<times> emulator) + emulator" where
  "load_tokens [] i s = Inr s"
| "load_tokens (token # tokens) i s =
     (if i < length (memory s) then
        if \<not> validateTernary token then Inl (InvalidTernaryAt i token, s)
        else
          case fromBalancedTernary token of
            Inl e \<Rightarrow> Inl (ErrorParsingInstruction i e, s)
          | Inr (Finite v) \<Rightarrow> load_tokens tokens (i + 1) (s\<lparr>memory := (memory s)[i := v]\<rparr>)
          | Inr w \<Rightarrow> Inl (WordNotFinite i w, s)
      else Inr s)"

definition loadProgram :: "js_string \<Rightarrow> emulator \<Rightarrow> (error \<times> emulator) + emulator" where
  "loadProgram programText s =
     (let s1 = reset s in
      if programText = [] \<or> length (trim programText) = 0 then Inr s1
      else load_tokens (split_spaces (trim programText)) 0 s1)"

subsection \<open>Breakpoints and memory protection\<close>

definition addBreakpoint :: "int \<Rightarrow> emulator \<Rightarrow> bool \<times> emulator" where
  "addBreakpoint address s =
     (if address \<ge> 0 \<and> address < int (length (memory s))
      then (True, s\<lparr>breakpoints := insert address (breakpoints s)\<rparr>)
      else (False, s))"

definition removeBreakpoint :: "int \<Rightarrow> emulator \<Rightarrow> bool \<times> emulator" where
  "removeBreakpoint address s =
     (address \<in> breakpoints s, s\<lparr>breakpoints := breakpoints s - {address}\<rparr>)"

definition addConditionalBreakpoint :: "condition \<Rightarrow> emulator \<Rightarrow> nat \<times> emulator" where
  "addConditionalBreakpoint c s =
     (length (conditionalBreakpoints s),
      s\<lparr>conditionalBreakpoints := conditionalBreakpoints s @ [c]\<rparr>)"

definition addWatch :: "watch \<Rightarrow> emulator \<Rightarrow> nat \<times> emulator" where
  "addWatch w s = (length (watches s), s\<lparr>watches := watches s @ [w]\<rparr>)"

definition protectMemoryRange :: "int \<Rightarrow> int \<Rightarrow> emulator \<Rightarrow> emulator" where
  "protectMemoryRange startAddr endAddr s =
     foldl (\<lambda>s addr. if addr \<ge> 0 \<and> addr < int (length (memory s))
                      then s\<lparr>protectedMemory := insert addr (protectedMemory s)\<rparr> else s)
       s [startAddr..endAddr]"

definition canWriteToMemory :: "emulator \<Rightarrow> int \<Rightarrow> bool" where
  "canWriteToMemory s addr =
     (if addr < 0 \<or> addr \<ge> int (length (memory s)) then False
      else addr \<notin> protectedMemory s)"

text \<open>The first condition of the list that is triggered, if any.\<close>

definition triggered :: "comparison \<Rightarrow> int \<Rightarrow> int \<Rightarrow> bool" where
  "triggered operator currentValue v =
     (case operator of
        OpEq \<Rightarrow> currentValue = v
      | OpNe \<Rightarrow> currentValue \<noteq> v
      | OpGt \<Rightarrow> currentValue > v
      | OpLt \<Rightarrow> currentValue < v
      | OpGe \<Rightarrow> currentValue \<ge> v
      | OpLe \<Rightarrow> currentValue \<le> v
      | OtherOperator \<Rightarrow> False)"

fun check_conditions :: "emulator \<Rightarrow> condition list \<Rightarrow> condition option" where
  "check_conditions s [] = None"
| "check_conditions s (c # cs) =
     (if cond_type c = AccumulatorType then
        (if triggered (cond_operator c) (accumulator s) (cond_value c) then Some c
         else check_conditions s cs)
      else if cond_type c = MemoryType \<and> cond_address c \<noteq> None then
        (let a = the (cond_address c) in
         if a \<ge> 0 \<and> a < int (length (memory s)) then
           (if triggered (cond_operator c) (memory s ! nat a) (cond_value c) then Some c
            else check_conditions s cs)
         else check_conditions s cs)
      else check_conditions s cs)"

definition checkConditionalBreakpoints :: "emulator \<Rightarrow> condition option" where
  "checkConditionalBreakpoints s = check_conditions s (conditionalBreakpoints s)"

subsection \<open>Fetch, decode, execute\<close>

definition decodeInstruction :: "int \<Rightarrow> int \<times> int option" where
  "decodeInstruction instruction = (instruction, None)"

text \<open>
  A call either returns a boolean or throws; both come with the state at that moment:
  \<open>Inl (e, s)\<close> is an exception \<open>e\<close> thrown in state \<open>s\<close>, \<open>Inr (b, s)\<close> is the return
  value \<open>b\<close> in state \<open>s\<close>.
\<close>

type_synonym outcome = "(error \<times> emulator) + (bool \<times> emulator)"

definition in_memory :: "emulator \<Rightarrow> int \<Rightarrow> bool" where
  "in_memory s addr \<longleftrightarrow> addr \<ge> 0 \<and> addr < int (length (memory s))"

definition count_access :: "int \<Rightarrow> emulator \<Rightarrow> emulator" where
  "count_access addr s =
     (if heatmapEnabled s
      then s\<lparr>memoryAccessCounts :=
               (memoryAccessCounts s)[nat addr := memoryAccessCounts s ! nat addr + 1]\<rparr>
      else s)"

text \<open>
  \<open>executeInstruction\<close> is called by \<open>step\<close> only, with the program counter inside
  memory, so every index read below is nonnegative.
\<close>

definition exec_HALT :: "emulator \<Rightarrow> outcome" where
  "exec_HALT s = Inr (False, fire_onHalt HaltInstructionEncountered (s\<lparr>running := False\<rparr>))"

definition exec_ADD :: "emulator \<Rightarrow> outcome" where
  "exec_ADD s =
     (let s1 = s\<lparr>programCounter := programCounter s + 1\<rparr> in
      if programCounter s1 < int (length (memory s1)) then
        Inr (True, s1\<lparr>accumulator := accumulator s1 + memory s1 ! nat (programCounter s1)\<rparr>)
      else Inr (True, s1))"

definition exec_SUB :: "emulator \<Rightarrow> outcome" where
  "exec_SUB s =
     (let s1 = s\<lparr>programCounter := programCounter s + 1\<rparr> in
      if programCounter s1 < int (length (memory s1)) then
        Inr (True, s1\<lparr>accumulator := accumulator s1 - memory s1 ! nat (programCounter s1)\<rparr>)
      else Inr (True, s1))"

definition exec_LOAD :: "emulator \<Rightarrow> outcome" where
  "exec_LOAD s =
     (let s1 = s\<lparr>programCounter := programCounter s + 1\<rparr> in
      if programCounter s1 < int (length (memory s1)) then
        (let addr = memory s1 ! nat (programCounter s1) in
         if in_memory s1 addr then
           Inr (True, count_access addr (s1\<lparr>accumulator := memory s1 ! nat addr\<rparr>))
         else Inr (True, s1))
      else Inr (True, s1))"

definition exec_STORE :: "emulator \<Rightarrow> outcome" where
  "exec_STORE s =
     (let s1 = s\<lparr>programCounter := programCounter s + 1\<rparr> in
      if programCounter s1 < int (length (memory s1)) then
        (let addr = memory s1 ! nat (programCounter s1) in
         if in_memory s1 addr then
           (if canWriteToMemory s1 addr then
              Inr (True, count_access addr
                           (s1\<lparr>memory := (memory s1)[nat addr := accumulator s1]\<rparr>))
            else Inl (ProtectedWrite addr, s1))
         else Inr (True, s1))
      else Inr (True, s1))"

definition exec_JMP :: "emulator \<Rightarrow> outcome" where
  "exec_JMP s =
     (let s1 = s\<lparr>programCounter := programCounter s + 1\<rparr> in
      if programCounter s1 < int (length (memory s1)) then
        (let addr = memory s1 ! nat (programCounter s1) in
         if in_memory s1 addr then Inr (True, s1\<lparr>programCounter := addr - 1\<rparr>)
         else Inr (True, s1))
      else Inr (True, s1))"

definition exec_JZ :: "emulator \<Rightarrow> outcome" where
  "exec_JZ s =
     (let s1 = s\<lparr>programCounter := programCounter s + 1\<rparr> in
      if programCounter s1 < int (length (memory s1)) then
        (if accumulator s1 = 0 then
           (let addr = memory s1 ! nat (programCounter s1) in
            if in_memory s1 addr then Inr (True, s1\<lparr>programCounter := addr - 1\<rparr>)
            else Inr (True, s1))
         else Inr (True, s1))
      else Inr (True, s1))"

definition exec_JNZ :: "emulator \<Rightarrow> outcome" where
  "exec_JNZ s =
     (let s1 = s\<lparr>programCounter := programCounter s + 1\<rparr> in
      if programCounter s1 < int (length (memory s1)) then
        (if accumulator s1 \<noteq> 0 then
           (let addr = memory s1 ! nat (programCounter s1) in
            if in_memory s1 addr then Inr (True, s1\<lparr>programCounter := addr - 1\<rparr>)
            else Inr (True, s1))
         else Inr (True, s1))
      else Inr (True, s1))"

definition exec_JNP :: "emulator \<Rightarrow> outcome" where
  "exec_JNP s =
     (let s1 = s\<lparr>programCounter := programCounter s + 1\<rparr> in
      if programCounter s1 < int (length (memory s1)) then
        (if accumulator s1 > 0 then
           (let addr = memory s1 ! nat (programCounter s1) in
            if in_memory s1 addr then Inr (True, s1\<lparr>programCounter := addr - 1\<rparr>)
            else Inr (True, s1))
         else Inr (True, s1))
      else Inr (True, s1))"

definition exec_SHL :: "emulator \<Rightarrow> outcome" where
  "exec_SHL s = Inr (True, s\<lparr>accumulator := accumulator s * 3\<rparr>)"

text \<open>\<open>Math.floor(accumulator / 3)\<close> is the integer quotient rounded down, as \<open>div\<close> is.\<close>

definition exec_SHR :: "emulator \<Rightarrow> outcome" where
  "exec_SHR s = Inr (True, s\<lparr>accumulator := accumulator s div 3\<rparr>)"

definition exec_CALL :: "emulator \<Rightarrow> outcome" where
  "exec_CALL s =
     (if length (callStack s) \<ge> maxCallDepth s then
        Inr (False, fire_onError CallStackOverflow (s\<lparr>running := False\<rparr>))
      else
        let s1 = s\<lparr>programCounter := programCounter s + 1\<rparr> in
        if programCounter s1 < int (length (memory s1)) then
          (let addr = memory s1 ! nat (programCounter s1);
               s2 = s1\<lparr>callStack := callStack s1 @ [programCounter s1 + 1]\<rparr>
           in if in_memory s2 addr then Inr (True, s2\<lparr>programCounter := addr - 1\<rparr>)
              else Inr (True, s2))
        else Inr (True, s1))"

definition exec_RET :: "emulator \<Rightarrow> outcome" where
  "exec_RET s =
     (if length (callStack s) = 0 then
        Inr (False, fire_onHalt ReturnWithEmptyCallStack (s\<lparr>running := False\<rparr>))
      else
        Inr (True, s\<lparr>programCounter := last (callStack s) - 1,
                      callStack := butlast (callStack s)\<rparr>))"

definition exec_NEG :: "emulator \<Rightarrow> outcome" where
  "exec_NEG s = Inr (True, s\<lparr>accumulator := - accumulator s\<rparr>)"

definition exec_INC :: "emulator \<Rightarrow> outcome" where
  "exec_INC s = Inr (True, s\<lparr>accumulator := accumulator s + 1\<rparr>)"

definition exec_DEC :: "emulator \<Rightarrow> outcome" where
  "exec_DEC s = Inr (True, s\<lparr>accumulator := accumulator s - 1\<rparr>)"

definition exec_LOADI :: "emulator \<Rightarrow> outcome" where
  "exec_LOADI s =
     (let s1 = s\<lparr>programCounter := programCounter s + 1\<rparr> in
      if programCounter s1 < int (length (memory s1)) then
        (let pointerAddr = memory s1 ! nat (programCounter s1) in
         if in_memory s1 pointerAddr then
           (let actualAddr = memory s1 ! nat pointerAddr in
            if in_memory s1 actualAddr then
              Inr (True, count_access actualAddr
                           (s1\<lparr>accumulator := memory s1 ! nat actualAddr\<rparr>))
            else Inr (True, s1))
         else Inr (True, s1))
      else Inr (True, s1))"

definition exec_STOREI :: "emulator \<Rightarrow> outcome" where
  "exec_STOREI s =
     (let s1 = s\<lparr>programCounter := programCounter s + 1\<rparr> in
      if programCounter s1 < int (length (memory s1)) then
        (let pointerAddr = memory s1 ! nat (programCounter s1) in
         if in_memory s1 pointerAddr then
           (let actualAddr = memory s1 ! nat pointerAddr in
            if in_memory s1 actualAddr then
              (if canWriteToMemory s1 actualAddr then
                 Inr (True, count_access actualAddr
                              (s1\<lparr>memory := (memory s1)[nat actualAddr := accumulator s1]\<rparr>))
               else Inl (ProtectedWrite actualAddr, s1))
            else Inr (True, s1))
         else Inr (True, s1))
      else Inr (True, s1))"

text \<open>
  The \<open>switch\<close> of \<open>executeInstruction\<close>, one definition above for the body of each
  \<open>case\<close>; an unknown opcode does nothing.
\<close>

definition executeInstruction :: "int \<Rightarrow> int option \<Rightarrow> emulator \<Rightarrow> outcome" where
  "executeInstruction opcode operand s =
     (if opcode = HALT then exec_HALT s
      else if opcode = ADD then exec_ADD s
      else if opcode = SUB then exec_SUB s
      else if opcode = LOAD then exec_LOAD s
      else if opcode = STORE then exec_STORE s
      else if opcode = JMP then exec_JMP s
      else if opcode = JZ then exec_JZ s
      else if opcode = JNZ then exec_JNZ s
      else if opcode = JNP then exec_JNP s
      else if opcode = SHL then exec_SHL s
      else if opcode = SHR then exec_SHR s
      else if opcode = CALL then exec_CALL s
      else if opcode = RET then exec_RET s
      else if opcode = NEG then exec_NEG s
      else if opcode = INC then exec_INC s
      else if opcode = DEC then exec_DEC s
      else if opcode = LOADI then exec_LOADI s
      else if opcode = STOREI then exec_STOREI s
      else Inr (True, s))"

text \<open>The part of \<open>step\<close> after \<open>executeInstruction\<close> has returned \<open>true\<close>.\<close>

definition after_execute :: "emulator \<Rightarrow> outcome" where
  "after_execute s =
     (let s1 = s\<lparr>programCounter := programCounter s + 1\<rparr>;
          s2 = s1\<lparr>instructionCount := instructionCount s1 + 1\<rparr>
      in case checkConditionalBreakpoints s2 of
           Some triggeredCondition \<Rightarrow>
             Inr (False,
               fire_onStateChange
                 (fire_onHalt (ConditionalBreakpoint triggeredCondition)
                    (s2\<lparr>running := False, hitBreakpoint := True\<rparr>)))
         | None \<Rightarrow>
             (let s3 = fire_onStateChange s2 in
              if programCounter s3 \<ge> int (length (memory s3)) then
                Inr (False, fire_onHalt EndOfMemoryReached (s3\<lparr>running := False\<rparr>))
              else Inr (True, s3)))"

definition step :: "emulator \<Rightarrow> outcome" where
  "step s =
     (if instructionCount s \<ge> maxInstructions s then
        Inr (False, fire_onError InstructionLimitReached (s\<lparr>running := False\<rparr>))
      else
        let s1 = (if historyEnabled s then saveStateToHistory s else s) in
        if programCounter s1 \<in> breakpoints s1 then
          Inr (False, fire_onHalt (BreakpointHitAt (programCounter s1))
                        (s1\<lparr>running := False, hitBreakpoint := True\<rparr>))
        else if programCounter s1 < 0 \<or> programCounter s1 \<ge> int (length (memory s1)) then
          Inr (False, fire_onHalt ProgramCounterOutOfBounds (s1\<lparr>running := False\<rparr>))
        else
          let s2 = s1\<lparr>instructionRegister := memory s1 ! nat (programCounter s1)\<rparr>;
              (opcode, operand) = decodeInstruction (instructionRegister s2)
          in case executeInstruction opcode operand s2 of
               Inl thrown \<Rightarrow> Inl thrown
             | Inr (result, s3) \<Rightarrow>
                 if \<not> result then Inr (False, s3) else after_execute s3)"

text \<open>The state a call leaves behind, whether it returned or threw.\<close>

definition state_of :: "outcome \<Rightarrow> emulator" where
  "state_of r = (case r of Inl (e, s) \<Rightarrow> s | Inr (b, s) \<Rightarrow> s)"

definition step_state :: "emulator \<Rightarrow> emulator" where
  "step_state s = state_of (step s)"

definition stepBack_state :: "emulator \<Rightarrow> emulator" where
  "stepBack_state s = snd (stepBack s)"

section \<open>Notions used in the properties\<close>

text \<open>The history after one more snapshot \<open>x\<close>, under the bound \<open>m\<close>.\<close>

definition push_history :: "snapshot list \<Rightarrow> snapshot \<Rightarrow> nat \<Rightarrow> snapshot list" where
  "push_history h x m = (if length (h @ [x]) > m then tl (h @ [x]) else h @ [x])"

text \<open>The state in which \<open>step\<close> goes on after the history has been recorded.\<close>

definition recorded :: "emulator \<Rightarrow> emulator" where
  "recorded s = (if historyEnabled s then saveStateToHistory s else s)"

text \<open>The state after the fetch, in which the instruction executes.\<close>

definition fetched :: "emulator \<Rightarrow> emulator" where
  "fetched s = (recorded s)\<lparr>instructionRegister := memory s ! nat (programCounter s)\<rparr>"

text \<open>How \<open>step\<close> ends once \<open>executeInstruction\<close> has given the outcome \<open>r\<close>.\<close>

definition finish :: "outcome \<Rightarrow> outcome" where
  "finish r =
     (case r of
        Inl thrown \<Rightarrow> Inl thrown
      | Inr (result, s3) \<Rightarrow> if \<not> result then Inr (False, s3) else after_execute s3)"

text \<open>The fields that no instruction changes.\<close>

definition kept_by_execute :: "emulator \<Rightarrow> emulator \<Rightarrow> bool" where
  "kept_by_execute s s' \<longleftrightarrow>
     executionHistory s' = executionHistory s \<and> historyEnabled s' = historyEnabled s \<and>
     maxHistorySize s' = maxHistorySize s \<and> maxInstructions s' = maxInstructions s \<and>
     instructionCount s' = instructionCount s \<and>
     instructionRegister s' = instructionRegister s \<and>
     breakpoints s' = breakpoints s \<and> maxCallDepth s' = maxCallDepth s"

text \<open>One call changes the call stack at its end only: no change, a push or a pop.\<close>

definition stack_move :: "int list \<Rightarrow> int list \<Rightarrow> bool" where
  "stack_move cs cs' \<longleftrightarrow> cs' = cs \<or> (\<exists>x. cs' = cs @ [x]) \<or> cs' = butlast cs"

text \<open>
  The program text \<open>+00 +0 0\<close> (INC; JMP 0), and the state after loading it into a new
  emulator of the default size.
\<close>

definition loop_text :: js_string where
  "loop_text = [PLUS, ZERO, ZERO, 0x20, PLUS, ZERO, 0x20, ZERO]"

definition loop_loaded :: emulator where
  "loop_loaded = (new_emulator 81)\<lparr>memory := (replicate 81 0)[0 := 9, 1 := 3, 2 := 0]\<rparr>"

text \<open>
  An emulator set up as the application does: the default size, the three callbacks
  installed.
\<close>

definition observed_emulator :: emulator where
  "observed_emulator = (new_emulator 81)\<lparr>onStateChange := True, onError := True, onHalt := True\<rparr>"

text \<open>The program text \<open>-+-\<close> (RET) and the state after loading it.\<close>

definition ret_text :: js_string where
  "ret_text = [HYPHEN, PLUS, HYPHEN]"

definition ret_loaded :: emulator where
  "ret_loaded = observed_emulator\<lparr>memory := (replicate 81 0)[0 := -7], trace := [OnStateChange]\<rparr>"

text \<open>The program text \<open>+-+ -\<close> (CALL -1) and the state after loading it.\<close>

definition call_text :: js_string where
  "call_text = [PLUS, HYPHEN, PLUS, 0x20, HYPHEN]"

definition call_loaded :: emulator where
  "call_loaded = (new_emulator 81)\<lparr>memory := (replicate 81 0)[0 := 7, 1 := -1]\<rparr>"

text \<open>
  The program text \<open>-+ +0\<close> (STORE 3) loaded, then address 3 write-protected, and the
  pointer variant \<open>-0- +- +0\<close> (STOREI 2, then the word 3) with word 2 holding the
  address 3.
\<close>

definition store_text :: js_string where
  "store_text = [HYPHEN, PLUS, 0x20, PLUS, ZERO]"

definition store_loaded :: emulator where
  "store_loaded = (new_emulator 81)\<lparr>memory := (replicate 81 0)[0 := -2, 1 := 3]\<rparr>"

definition storei_text :: js_string where
  "storei_text = [HYPHEN, ZERO, HYPHEN, 0x20, PLUS, HYPHEN, 0x20, PLUS, ZERO]"

definition storei_loaded :: emulator where
  "storei_loaded = (new_emulator 81)\<lparr>memory := (replicate 81 0)[0 := -10, 1 := 2, 2 := 3]\<rparr>"

text \<open>
  Two states are the same machine when they agree on every field an instruction or the
  checks of \<open>step\<close> read: they may differ in the history, the flags \<open>running\<close> and
  \<open>hitBreakpoint\<close>, the access counts, the callbacks and the trace. Two outcomes are
  the same when both return the same value or both throw the same error, in states
  that are the same machine.
\<close>

definition same_machine :: "emulator \<Rightarrow> emulator \<Rightarrow> bool" where
  "same_machine s t \<longleftrightarrow>
     accumulator s = accumulator t \<and> programCounter s = programCounter t \<and>
     instructionRegister s = instructionRegister t \<and> memory s = memory t \<and>
     callStack s = callStack t \<and> maxCallDepth s = maxCallDepth t \<and>
     breakpoints s = breakpoints t \<and>
     conditionalBreakpoints s = conditionalBreakpoints t \<and>
     protectedMemory s = protectedMemory t \<and>
     instructionCount s = instructionCount t \<and> maxInstructions s = maxInstructions t"

definition same_outcome :: "outcome \<Rightarrow> outcome \<Rightarrow> bool" where
  "same_outcome r r' \<longleftrightarrow>
     (case r of
        Inl (e, s) \<Rightarrow> (case r' of Inl (e', s') \<Rightarrow> e = e' \<and> same_machine s s' | Inr _ \<Rightarrow> False)
      | Inr (b, s) \<Rightarrow> (case r' of Inl _ \<Rightarrow> False | Inr (b', s') \<Rightarrow> b = b' \<and> same_machine s s'))"

text \<open>
  The program text \<open>+-+ ++ 0 0 +-+ +-+ -+- -+-\<close>: CALL 4 at address 0, HALT at 2, and
  at address 4 a subroutine that calls the subroutine at address 7 (a lone RET) and
  returns at address 6.
\<close>

definition nested_text :: js_string where
  "nested_text =
     [PLUS, HYPHEN, PLUS, 0x20, PLUS, PLUS, 0x20, ZERO, 0x20, ZERO, 0x20,
      PLUS, HYPHEN, PLUS, 0x20, PLUS, HYPHEN, PLUS, 0x20,
      HYPHEN, PLUS, HYPHEN, 0x20, HYPHEN, PLUS, HYPHEN]"

definition nested_loaded :: emulator where
  "nested_loaded =
     (new_emulator 81)\<lparr>memory :=
        (replicate 81 0)[0 := 7, 1 := 4, 2 := 0, 3 := 0, 4 := 7, 5 := 7, 6 := -7, 7 := -7]\<rparr>"


text \<open>
  The program \<open>+00 +0 0\<close> loaded into an emulator whose instruction limit has been set
  to 1, and the state after its one step with a breakpoint then set at address 1, where
  the program counter is.
\<close>

definition limit_loaded :: emulator where
  "limit_loaded = loop_loaded\<lparr>maxInstructions := 1\<rparr>"

definition limit_reached :: emulator where
  "limit_reached = (step_state limit_loaded)\<lparr>breakpoints := {1}\<rparr>"

text \<open>
  The symbols \<open>fromBalancedTernary\<close> accepts and the digit each stands for, and the value
  of a string of such symbols: the sum of digit times \<open>3 ^ power\<close>, the last code unit
  having power 0.
\<close>

definition ternary_symbol :: "code_unit \<Rightarrow> bool" where
  "ternary_symbol c \<longleftrightarrow>
     c = HYPHEN \<or> c = MINUS_SIGN \<or> c = UNDERSCORE \<or> c = ZERO \<or> c = PLUS \<or> c = ONE"

definition symbol_digit :: "code_unit \<Rightarrow> int" where
  "symbol_digit c =
     (if c = HYPHEN \<or> c = MINUS_SIGN \<or> c = UNDERSCORE then -1 else if c = ZERO then 0 else 1)"



text \<open>The value of a digit list, most significant digit first.\<close>

fun bt_val :: "int list \<Rightarrow> int" where
  "bt_val [] = 0"
| "bt_val (d # ds) = d * 3 ^ length ds + bt_val ds"

text \<open>The value of a digit list, least significant digit first.\<close>

fun lsd_val :: "int list \<Rightarrow> int" where
  "lsd_val [] = 0"
| "lsd_val (d # ds) = d + 3 * lsd_val ds"


section \<open>Round trip of the numeral codec\<close>

lemma bit_length_le: "n < 2 ^ k \<Longrightarrow> bit_length n \<le> k"
proof (induction k arbitrary: n)
  case 0
  then show ?case by (simp add: bit_length.simps)
next
  case (Suc k)
  show ?case
  proof (cases "n = 0")
    case True
    then show ?thesis by (simp add: bit_length.simps)
  next
    case False
    have "n div 2 < 2 ^ k" using Suc.prems by simp
    from Suc.IH[OF this] False show ?thesis by (subst bit_length.simps) simp
  qed
qed


lemma to_double_exact: "\<bar>x\<bar> < 2 ^ 53 \<Longrightarrow> to_double x = Finite x"
proof -
  assume "\<bar>x\<bar> < 2 ^ 53"
  then have "nat \<bar>x\<bar> < 2 ^ 53" by (simp add: nat_less_iff)
  then have "bit_length (nat \<bar>x\<bar>) \<le> 53" by (rule bit_length_le)
  then show ?thesis by (simp add: to_double_def)
qed






lemma bt_val_append: "bt_val (xs @ ys) = bt_val xs * 3 ^ length ys + bt_val ys"
  by (induction xs) (simp_all add: algebra_simps power_add)

lemma lsd_val_rev: "lsd_val (rev ds) = bt_val ds"
proof (induction ds)
  case Nil
  show ?case by simp
next
  case (Cons d ds)
  have snoc: "lsd_val (xs @ [x]) = lsd_val xs + x * 3 ^ length xs" for xs x
    by (induction xs) (simp_all add: algebra_simps)
  show ?case using Cons by (simp add: snoc)
qed




lemma pow_exact: "p \<le> 33 \<Longrightarrow> Math_pow 3 p = Finite (3 ^ p)"
proof -
  assume "p \<le> 33"
  then have "(3::int) ^ p \<le> 3 ^ 33" by (intro power_increasing) simp_all
  also have "\<dots> < 2 ^ 53" by simp
  finally have "\<bar>3 ^ p :: int\<bar> < 2 ^ 53" by simp
  then show ?thesis unfolding Math_pow_def by (rule to_double_exact)
qed

lemma symbol_digit_cases:
  "symbol_digit c = -1 \<or> symbol_digit c = 0 \<or> symbol_digit c = 1"
  by (simp add: symbol_digit_def)

lemma from_loop_step:
  "from_loop (c # rest) r p =
     (if ternary_symbol c
      then from_loop rest (js_add r (js_times (Finite (symbol_digit c)) (Math_pow 3 p))) (p + 1)
      else Inl (InvalidTernaryDigit c))"
  by (simp add: ternary_symbol_def symbol_digit_def)

lemma add_digit_exact:
  assumes "p \<le> 33" and "2 * \<bar>r\<bar> + 1 \<le> 3 ^ p" and "d = -1 \<or> d = 0 \<or> d = 1"
  shows "js_add (Finite r) (js_times (Finite d) (Math_pow 3 p)) = Finite (r + d * 3 ^ p)"
    and "2 * \<bar>r + d * 3 ^ p\<bar> + 1 \<le> 3 ^ (p + 1)"
proof -
  define w :: int where "w = 3 ^ p"
  define x :: int where "x = d * w"
  have "(3::int) ^ p \<le> 3 ^ 33" using assms(1) by (intro power_increasing) simp_all
  then have le: "w \<le> 5559060566555523" by (simp add: w_def)
  have r: "2 * \<bar>r\<bar> + 1 \<le> w" using assms(2) by (simp add: w_def)
  have x: "\<bar>x\<bar> \<le> w" using assms(3) r by (auto simp add: x_def)
  then have "\<bar>x\<bar> < 2 ^ 53" using le by simp
  then have times: "js_times (Finite d) (Math_pow 3 p) = Finite x"
    by (simp add: pow_exact[OF assms(1)] to_double_exact w_def x_def)
  have sum: "2 * \<bar>r + x\<bar> + 1 \<le> 3 * w" using x r by arith
  then show "2 * \<bar>r + d * 3 ^ p\<bar> + 1 \<le> 3 ^ (p + 1)" by (simp add: w_def x_def)
  have "\<bar>r + x\<bar> < 2 ^ 53" using sum le by simp
  then have "js_add (Finite r) (Finite x) = Finite (r + x)"
    by (simp add: to_double_exact)
  then show "js_add (Finite r) (js_times (Finite d) (Math_pow 3 p)) = Finite (r + d * 3 ^ p)"
    by (simp add: times w_def x_def)
qed

lemma decode_exact:
  "list_all ternary_symbol cs \<Longrightarrow> p + length cs \<le> 34 \<Longrightarrow> 2 * \<bar>r\<bar> + 1 \<le> 3 ^ p \<Longrightarrow>
   from_loop cs (Finite r) p = Inr (Finite (r + 3 ^ p * lsd_val (map symbol_digit cs)))"
proof (induction cs arbitrary: r p)
  case Nil
  show ?case by simp
next
  case (Cons c cs)
  from Cons.prems(1) have c: "ternary_symbol c" and cs: "list_all ternary_symbol cs"
    by simp_all
  from Cons.prems(2) have p: "p \<le> 33" and len: "(p + 1) + length cs \<le> 34" by simp_all
  note step = add_digit_exact[OF p Cons.prems(3) symbol_digit_cases[of c]]
  have "from_loop (c # cs) (Finite r) p
          = from_loop cs (js_add (Finite r) (js_times (Finite (symbol_digit c)) (Math_pow 3 p)))
              (p + 1)"
    using c by (simp only: from_loop_step if_True)
  also have "\<dots> = from_loop cs (Finite (r + symbol_digit c * 3 ^ p)) (p + 1)"
    by (simp only: step(1))
  also have "\<dots> = Inr (Finite (r + symbol_digit c * 3 ^ p
                      + 3 ^ (p + 1) * lsd_val (map symbol_digit cs)))"
    by (rule Cons.IH[OF cs len step(2)])
  finally show ?case by (simp add: algebra_simps del: from_loop.simps)
qed

lemma fromBalancedTernary_exact:
  assumes "list_all ternary_symbol str" and "length str \<le> 34"
  shows "fromBalancedTernary str = Inr (Finite (bt_val (map symbol_digit str)))"
proof -
  have "list_all ternary_symbol (rev str)" using assms(1) by (simp add: list_all_iff)
  from decode_exact[OF this, of 0 0] assms(2)
  have "from_loop (rev str) (Finite 0) 0 = Inr (Finite (bt_val (map symbol_digit str)))"
    by (simp add: rev_map[symmetric] lsd_val_rev)
  moreover have "str = [] \<Longrightarrow> bt_val (map symbol_digit str) = 0" by simp
  ultimately show ?thesis by (simp add: fromBalancedTernary_def)
qed


















section \<open>The parts of a step\<close>

lemmas OPCODES =
  HALT_def ADD_def SUB_def LOAD_def STORE_def JMP_def JZ_def JNZ_def JNP_def SHL_def SHR_def
  CALL_def RET_def NEG_def INC_def DEC_def LOADI_def STOREI_def

lemmas exec_defs =
  exec_HALT_def exec_ADD_def exec_SUB_def exec_LOAD_def exec_STORE_def exec_JMP_def exec_JZ_def
  exec_JNZ_def exec_JNP_def exec_SHL_def exec_SHR_def exec_CALL_def exec_RET_def exec_NEG_def
  exec_INC_def exec_DEC_def exec_LOADI_def exec_STOREI_def

lemma fire_onStateChange_eq:
  "fire_onStateChange s =
     s\<lparr>trace := trace s @ (if onStateChange s then [OnStateChange] else [])\<rparr>"
  by (simp add: fire_onStateChange_def)

lemma fire_onHalt_eq:
  "fire_onHalt m s = s\<lparr>trace := trace s @ (if onHalt s then [OnHalt m] else [])\<rparr>"
  by (simp add: fire_onHalt_def)

lemma fire_onError_eq:
  "fire_onError m s = s\<lparr>trace := trace s @ (if onError s then [OnError m] else [])\<rparr>"
  by (simp add: fire_onError_def)

lemmas fire_eqs = fire_onStateChange_eq fire_onHalt_eq fire_onError_eq

lemma saveStateToHistory_eq:
  "saveStateToHistory s =
     s\<lparr>executionHistory :=
         push_history (executionHistory s) (current_snapshot s) (maxHistorySize s)\<rparr>"
  by (simp add: saveStateToHistory_def push_history_def Let_def)

lemma recorded_eq:
  "recorded s =
     s\<lparr>executionHistory :=
         (if historyEnabled s
          then push_history (executionHistory s) (current_snapshot s) (maxHistorySize s)
          else executionHistory s)\<rparr>"
  by (simp add: recorded_def saveStateToHistory_eq)

lemma count_access_eq:
  "count_access a s =
     s\<lparr>memoryAccessCounts :=
         (if heatmapEnabled s
          then (memoryAccessCounts s)[nat a := memoryAccessCounts s ! nat a + 1]
          else memoryAccessCounts s)\<rparr>"
  by (simp add: count_access_def)

lemma step_limit:
  "instructionCount s \<ge> maxInstructions s \<Longrightarrow>
   step s = Inr (False, fire_onError InstructionLimitReached (s\<lparr>running := False\<rparr>))"
  by (simp add: step_def)

lemma step_breakpoint:
  "instructionCount s < maxInstructions s \<Longrightarrow> programCounter s \<in> breakpoints s \<Longrightarrow>
   step s = Inr (False, fire_onHalt (BreakpointHitAt (programCounter s))
                          ((recorded s)\<lparr>running := False, hitBreakpoint := True\<rparr>))"
  by (simp add: step_def recorded_def saveStateToHistory_eq Let_def)

lemma step_out_of_bounds:
  "instructionCount s < maxInstructions s \<Longrightarrow> programCounter s \<notin> breakpoints s \<Longrightarrow>
   \<not> in_memory s (programCounter s) \<Longrightarrow>
   step s = Inr (False, fire_onHalt ProgramCounterOutOfBounds ((recorded s)\<lparr>running := False\<rparr>))"
  by (auto simp add: step_def recorded_def saveStateToHistory_eq Let_def in_memory_def)

lemma step_fetch:
  "instructionCount s < maxInstructions s \<Longrightarrow> programCounter s \<notin> breakpoints s \<Longrightarrow>
   in_memory s (programCounter s) \<Longrightarrow>
   step s =
     finish (executeInstruction (memory s ! nat (programCounter s)) None
               ((recorded s)\<lparr>instructionRegister := memory s ! nat (programCounter s)\<rparr>))"
  by (auto simp add: step_def recorded_def saveStateToHistory_eq Let_def in_memory_def
        decodeInstruction_def finish_def)

lemma exec_keeps:
  "kept_by_execute s (state_of (exec_HALT s))"
  "kept_by_execute s (state_of (exec_ADD s))"
  "kept_by_execute s (state_of (exec_SUB s))"
  "kept_by_execute s (state_of (exec_LOAD s))"
  "kept_by_execute s (state_of (exec_STORE s))"
  "kept_by_execute s (state_of (exec_JMP s))"
  "kept_by_execute s (state_of (exec_JZ s))"
  "kept_by_execute s (state_of (exec_JNZ s))"
  "kept_by_execute s (state_of (exec_JNP s))"
  "kept_by_execute s (state_of (exec_SHL s))"
  "kept_by_execute s (state_of (exec_SHR s))"
  "kept_by_execute s (state_of (exec_CALL s))"
  "kept_by_execute s (state_of (exec_RET s))"
  "kept_by_execute s (state_of (exec_NEG s))"
  "kept_by_execute s (state_of (exec_INC s))"
  "kept_by_execute s (state_of (exec_DEC s))"
  "kept_by_execute s (state_of (exec_LOADI s))"
  "kept_by_execute s (state_of (exec_STOREI s))"
  by (simp_all add: kept_by_execute_def exec_defs state_of_def Let_def fire_eqs count_access_eq)

lemma executeInstruction_keeps:
  "kept_by_execute s (state_of (executeInstruction opc opd s))"
proof -
  have "kept_by_execute s (state_of (Inr (True, s)))"
    by (simp add: kept_by_execute_def state_of_def)
  then show ?thesis by (simp add: executeInstruction_def exec_keeps)
qed

lemma exec_stack:
  "stack_move (callStack s) (callStack (state_of (exec_HALT s)))"
  "stack_move (callStack s) (callStack (state_of (exec_ADD s)))"
  "stack_move (callStack s) (callStack (state_of (exec_SUB s)))"
  "stack_move (callStack s) (callStack (state_of (exec_LOAD s)))"
  "stack_move (callStack s) (callStack (state_of (exec_STORE s)))"
  "stack_move (callStack s) (callStack (state_of (exec_JMP s)))"
  "stack_move (callStack s) (callStack (state_of (exec_JZ s)))"
  "stack_move (callStack s) (callStack (state_of (exec_JNZ s)))"
  "stack_move (callStack s) (callStack (state_of (exec_JNP s)))"
  "stack_move (callStack s) (callStack (state_of (exec_SHL s)))"
  "stack_move (callStack s) (callStack (state_of (exec_SHR s)))"
  "stack_move (callStack s) (callStack (state_of (exec_CALL s)))"
  "stack_move (callStack s) (callStack (state_of (exec_RET s)))"
  "stack_move (callStack s) (callStack (state_of (exec_NEG s)))"
  "stack_move (callStack s) (callStack (state_of (exec_INC s)))"
  "stack_move (callStack s) (callStack (state_of (exec_DEC s)))"
  "stack_move (callStack s) (callStack (state_of (exec_LOADI s)))"
  "stack_move (callStack s) (callStack (state_of (exec_STOREI s)))"
  by (simp_all add: stack_move_def exec_defs state_of_def Let_def fire_eqs count_access_eq)

lemma executeInstruction_stack:
  "stack_move (callStack s) (callStack (state_of (executeInstruction opc opd s)))"
proof -
  have "stack_move (callStack s) (callStack (state_of (Inr (True, s))))"
    by (simp add: stack_move_def state_of_def)
  then show ?thesis by (simp add: executeInstruction_def exec_stack)
qed

lemma after_execute_fields:
  "executionHistory (state_of (after_execute s)) = executionHistory s"
  "historyEnabled (state_of (after_execute s)) = historyEnabled s"
  "maxHistorySize (state_of (after_execute s)) = maxHistorySize s"
  "maxInstructions (state_of (after_execute s)) = maxInstructions s"
  "maxCallDepth (state_of (after_execute s)) = maxCallDepth s"
  "breakpoints (state_of (after_execute s)) = breakpoints s"
  "instructionCount (state_of (after_execute s)) = instructionCount s + 1"
  "programCounter (state_of (after_execute s)) = programCounter s + 1"
  "callStack (state_of (after_execute s)) = callStack s"
  "accumulator (state_of (after_execute s)) = accumulator s"
  "memory (state_of (after_execute s)) = memory s"
  "instructionRegister (state_of (after_execute s)) = instructionRegister s"
  by (simp_all add: after_execute_def state_of_def Let_def fire_eqs split: option.split)

lemma state_of_finish:
  "state_of (finish r) = state_of r \<or> state_of (finish r) = state_of (after_execute (state_of r))"
  by (auto simp add: finish_def state_of_def split: sum.split)


lemma step_state_cases [case_names limit breakpoint bounds stopped completed]:
  assumes "instructionCount s \<ge> maxInstructions s \<Longrightarrow>
             step_state s = fire_onError InstructionLimitReached (s\<lparr>running := False\<rparr>) \<Longrightarrow> P"
    and "instructionCount s < maxInstructions s \<Longrightarrow> programCounter s \<in> breakpoints s \<Longrightarrow>
             step_state s = fire_onHalt (BreakpointHitAt (programCounter s))
                              ((recorded s)\<lparr>running := False, hitBreakpoint := True\<rparr>) \<Longrightarrow> P"
    and "instructionCount s < maxInstructions s \<Longrightarrow> programCounter s \<notin> breakpoints s \<Longrightarrow>
             \<not> in_memory s (programCounter s) \<Longrightarrow>
             step_state s = fire_onHalt ProgramCounterOutOfBounds ((recorded s)\<lparr>running := False\<rparr>) \<Longrightarrow> P"
    and "instructionCount s < maxInstructions s \<Longrightarrow> programCounter s \<notin> breakpoints s \<Longrightarrow>
             in_memory s (programCounter s) \<Longrightarrow>
             step_state s = state_of (executeInstruction (memory s ! nat (programCounter s)) None (fetched s)) \<Longrightarrow> P"
    and "instructionCount s < maxInstructions s \<Longrightarrow> programCounter s \<notin> breakpoints s \<Longrightarrow>
             in_memory s (programCounter s) \<Longrightarrow>
             step_state s = state_of (after_execute (state_of
               (executeInstruction (memory s ! nat (programCounter s)) None (fetched s)))) \<Longrightarrow> P"
  shows P
proof (cases "instructionCount s \<ge> maxInstructions s")
  case True
  then show ?thesis using assms(1) by (simp add: step_state_def step_limit state_of_def)
next
  case False
  then have lt: "instructionCount s < maxInstructions s" by simp
  show ?thesis
  proof (cases "programCounter s \<in> breakpoints s")
    case True
    then show ?thesis using assms(2) lt by (simp add: step_state_def step_breakpoint state_of_def)
  next
    case nb: False
    show ?thesis
    proof (cases "in_memory s (programCounter s)")
      case False
      then show ?thesis using assms(3) lt nb
        by (simp add: step_state_def step_out_of_bounds state_of_def)
    next
      case True
      have "step_state s = state_of (finish (executeInstruction (memory s ! nat (programCounter s)) None (fetched s)))"
        by (simp add: step_state_def step_fetch[OF lt nb True] fetched_def)
      then show ?thesis
        using state_of_finish[of "executeInstruction (memory s ! nat (programCounter s)) None (fetched s)"]
          assms(4,5) lt nb True by auto
    qed
  qed
qed

lemma fetched_fields:
  "executionHistory (fetched s) = executionHistory (recorded s)"
  "historyEnabled (fetched s) = historyEnabled s"
  "maxHistorySize (fetched s) = maxHistorySize s"
  "maxInstructions (fetched s) = maxInstructions s"
  "maxCallDepth (fetched s) = maxCallDepth s"
  "breakpoints (fetched s) = breakpoints s"
  "instructionCount (fetched s) = instructionCount s"
  "callStack (fetched s) = callStack s"
  by (simp_all add: fetched_def recorded_eq)

lemma step_state_config:
  "historyEnabled (step_state s) = historyEnabled s"
  "maxHistorySize (step_state s) = maxHistorySize s"
  "maxInstructions (step_state s) = maxInstructions s"
  "maxCallDepth (step_state s) = maxCallDepth s"
  "breakpoints (step_state s) = breakpoints s"
  using executeInstruction_keeps[of "fetched s" "memory s ! nat (programCounter s)" None]
  by (cases s rule: step_state_cases;
      simp add: fire_eqs recorded_eq after_execute_fields kept_by_execute_def fetched_fields)+

lemma step_state_history:
  "instructionCount s < maxInstructions s \<Longrightarrow>
   executionHistory (step_state s) = executionHistory (recorded s)"
  using executeInstruction_keeps[of "fetched s" "memory s ! nat (programCounter s)" None]
  by (cases s rule: step_state_cases;
      simp add: fire_eqs after_execute_fields kept_by_execute_def fetched_fields)

lemma step_state_count:
  "instructionCount (step_state s) \<le> instructionCount s + 1"
  using executeInstruction_keeps[of "fetched s" "memory s ! nat (programCounter s)" None]
  by (cases s rule: step_state_cases;
      simp add: fire_eqs recorded_eq after_execute_fields kept_by_execute_def fetched_fields)

lemma step_state_stack:
  "stack_move (callStack s) (callStack (step_state s))"
  using executeInstruction_stack[of "fetched s" "memory s ! nat (programCounter s)" None]
  by (cases s rule: step_state_cases;
      simp add: fire_eqs recorded_eq after_execute_fields fetched_fields; simp add: stack_move_def)

section \<open>Undoing steps\<close>

lemma push_history_snoc:
  "0 < m \<Longrightarrow> \<exists>h'. push_history h x m = h' @ [x]"
  by (cases h) (auto simp add: push_history_def)

lemma push_history_length:
  "length h \<le> m \<Longrightarrow> length (push_history h x m) \<le> m"
  by (auto simp add: push_history_def)

lemma push_then_drop:
  assumes "length h \<le> m" "k < m"
  shows "drop (length (push_history h x m) + k - m) (push_history h x m)
           = drop (length h + Suc k - m) h @ [x]"
proof (cases "length h < m")
  case True
  then show ?thesis using assms by (simp add: push_history_def)
next
  case False
  with assms have eq: "length h = m" by simp
  with assms have ne: "h \<noteq> []" by auto
  then have "push_history h x m = tl h @ [x]" using eq by (simp add: push_history_def)
  moreover have "drop k (tl h) = drop (Suc k) h" by (simp add: drop_Suc)
  ultimately show ?thesis using eq assms ne by (simp add: drop_Suc)
qed

lemma stepBack_restore:
  assumes "executionHistory s = h @ [x]"
  shows "current_snapshot (stepBack_state s) = x" "executionHistory (stepBack_state s) = h"
  using assms
  by (simp_all add: stepBack_state_def stepBack_def Let_def fire_eqs current_snapshot_def)

lemma stepBack_empty:
  assumes "executionHistory s = []"
  shows "current_snapshot (stepBack_state s) = current_snapshot s"
    "executionHistory (stepBack_state s) = []"
  using assms
  by (simp_all add: stepBack_state_def stepBack_def Let_def fire_eqs current_snapshot_def)

lemma recorded_history:
  "historyEnabled s \<Longrightarrow> executionHistory (recorded s)
      = push_history (executionHistory s) (current_snapshot s) (maxHistorySize s)"
  by (simp add: recorded_eq)

lemma steps_then_back:
  "historyEnabled s \<Longrightarrow> k \<le> maxHistorySize s \<Longrightarrow>
   instructionCount s + k \<le> maxInstructions s \<Longrightarrow>
   length (executionHistory s) \<le> maxHistorySize s \<Longrightarrow>
   current_snapshot ((stepBack_state ^^ k) ((step_state ^^ k) s)) = current_snapshot s \<and>
   executionHistory ((stepBack_state ^^ k) ((step_state ^^ k) s))
     = drop (length (executionHistory s) + k - maxHistorySize s) (executionHistory s)"
proof (induction k arbitrary: s)
  case 0
  then show ?case by simp
next
  case (Suc k)
  let ?s' = "step_state s"
  let ?m = "maxHistorySize s"
  let ?h = "executionHistory s"
  let ?x = "current_snapshot s"
  let ?u = "(stepBack_state ^^ k) ((step_state ^^ k) ?s')"
  have lt: "instructionCount s < maxInstructions s" using Suc.prems by simp
  have h': "executionHistory ?s' = push_history ?h ?x ?m"
    using step_state_history[OF lt] Suc.prems(1) by (simp add: recorded_history)
  have en: "historyEnabled ?s'" using Suc.prems(1) by (simp add: step_state_config)
  have km: "k \<le> maxHistorySize ?s'" using Suc.prems(2) by (simp add: step_state_config)
  have ic: "instructionCount ?s' + k \<le> maxInstructions ?s'"
    using step_state_count[of s] Suc.prems(3) by (simp add: step_state_config)
  have len: "length (executionHistory ?s') \<le> maxHistorySize ?s'"
    using Suc.prems(4) by (simp add: h' step_state_config push_history_length)
  from Suc.IH[OF en km ic len]
  have u: "executionHistory ?u
            = drop (length (push_history ?h ?x ?m) + k - ?m) (push_history ?h ?x ?m)"
    by (simp add: h' step_state_config)
  have "k < ?m" using Suc.prems(2) by simp
  from push_then_drop[OF Suc.prems(4) this]
  have u': "executionHistory ?u = drop (length ?h + Suc k - ?m) ?h @ [?x]"
    using u by simp
  have shape: "(stepBack_state ^^ Suc k) ((step_state ^^ Suc k) s) = stepBack_state ?u"
    by (simp add: funpow_swap1)
  show ?case
    unfolding shape using stepBack_restore[OF u'] by simp
qed

lemma steps_config:
  "historyEnabled ((step_state ^^ i) s) = historyEnabled s"
  "maxHistorySize ((step_state ^^ i) s) = maxHistorySize s"
  "maxInstructions ((step_state ^^ i) s) = maxInstructions s"
  by (induction i) (simp_all add: step_state_config)

lemma steps_below_then_back:
  "historyEnabled s \<Longrightarrow> k \<le> maxHistorySize s \<Longrightarrow>
   \<forall>i<k. instructionCount ((step_state ^^ i) s) < maxInstructions s \<Longrightarrow>
   length (executionHistory s) \<le> maxHistorySize s \<Longrightarrow>
   current_snapshot ((stepBack_state ^^ k) ((step_state ^^ k) s)) = current_snapshot s \<and>
   executionHistory ((stepBack_state ^^ k) ((step_state ^^ k) s))
     = drop (length (executionHistory s) + k - maxHistorySize s) (executionHistory s)"
proof (induction k arbitrary: s)
  case 0
  then show ?case by simp
next
  case (Suc k)
  let ?s' = "step_state s"
  let ?m = "maxHistorySize s"
  let ?h = "executionHistory s"
  let ?x = "current_snapshot s"
  let ?u = "(stepBack_state ^^ k) ((step_state ^^ k) ?s')"
  have lt: "instructionCount s < maxInstructions s" using Suc.prems(3) by auto
  have h': "executionHistory ?s' = push_history ?h ?x ?m"
    using step_state_history[OF lt] Suc.prems(1) by (simp add: recorded_history)
  have en: "historyEnabled ?s'" using Suc.prems(1) by (simp add: step_state_config)
  have km: "k \<le> maxHistorySize ?s'" using Suc.prems(2) by (simp add: step_state_config)
  have below: "\<forall>i<k. instructionCount ((step_state ^^ i) ?s') < maxInstructions ?s'"
  proof (intro allI impI)
    fix i assume "i < k"
    then have "instructionCount ((step_state ^^ Suc i) s) < maxInstructions s"
      using Suc.prems(3) by (simp del: funpow.simps)
    then show "instructionCount ((step_state ^^ i) ?s') < maxInstructions ?s'"
      by (simp add: funpow_swap1 step_state_config)
  qed
  have len: "length (executionHistory ?s') \<le> maxHistorySize ?s'"
    using Suc.prems(4) by (simp add: h' step_state_config push_history_length)
  from Suc.IH[OF en km below len]
  have u: "executionHistory ?u
            = drop (length (push_history ?h ?x ?m) + k - ?m) (push_history ?h ?x ?m)"
    by (simp add: h' step_state_config)
  have "k < ?m" using Suc.prems(2) by simp
  from push_then_drop[OF Suc.prems(4) this]
  have u': "executionHistory ?u = drop (length ?h + Suc k - ?m) ?h @ [?x]"
    using u by simp
  have shape: "(stepBack_state ^^ Suc k) ((step_state ^^ Suc k) s) = stepBack_state ?u"
    by (simp add: funpow_swap1)
  show ?case
    unfolding shape using stepBack_restore[OF u'] by simp
qed

lemma step_state_at_limit:
  assumes "maxInstructions s \<le> instructionCount s"
  shows "current_snapshot (step_state s) = current_snapshot s"
    "executionHistory (step_state s) = executionHistory s"
    "instructionCount (step_state s) = instructionCount s"
  using step_limit[OF assms]
  by (simp_all add: step_state_def state_of_def fire_eqs current_snapshot_def)

lemma steps_at_limit:
  assumes "maxInstructions s \<le> instructionCount s"
  shows "current_snapshot ((step_state ^^ n) s) = current_snapshot s \<and>
         executionHistory ((step_state ^^ n) s) = executionHistory s \<and>
         instructionCount ((step_state ^^ n) s) = instructionCount s"
proof (induction n)
  case 0
  show ?case by simp
next
  case (Suc n)
  let ?t = "(step_state ^^ n) s"
  have "maxInstructions ?t \<le> instructionCount ?t"
    using Suc assms by (simp add: steps_config)
  from step_state_at_limit[OF this] Suc show ?case by simp
qed

lemma stepBack_same_record:
  assumes "current_snapshot u = current_snapshot v"
    and "executionHistory u = executionHistory v"
  shows "current_snapshot (stepBack_state u) = current_snapshot (stepBack_state v) \<and>
         executionHistory (stepBack_state u) = executionHistory (stepBack_state v)"
proof (cases "executionHistory v = []")
  case True
  with assms(2) have "executionHistory u = []" by simp
  from stepBack_empty[OF this] stepBack_empty[OF True] assms(1) show ?thesis by simp
next
  case False
  then have v: "executionHistory v = butlast (executionHistory v) @ [last (executionHistory v)]"
    by simp
  with assms(2)
  have u: "executionHistory u = butlast (executionHistory v) @ [last (executionHistory v)]"
    by simp
  from stepBack_restore[OF u] stepBack_restore[OF v] show ?thesis by simp
qed

lemma stepBacks_same_record:
  assumes "current_snapshot u = current_snapshot v"
    and "executionHistory u = executionHistory v"
  shows "current_snapshot ((stepBack_state ^^ n) u) = current_snapshot ((stepBack_state ^^ n) v) \<and>
         executionHistory ((stepBack_state ^^ n) u) = executionHistory ((stepBack_state ^^ n) v)"
proof (induction n)
  case 0
  show ?case using assms by simp
next
  case (Suc n)
  then show ?case
    using stepBack_same_record[of "(stepBack_state ^^ n) u" "(stepBack_state ^^ n) v"] by simp
qed

lemma stepBacks_empty:
  assumes "executionHistory v = []"
  shows "current_snapshot ((stepBack_state ^^ n) v) = current_snapshot v \<and>
         executionHistory ((stepBack_state ^^ n) v) = []"
proof (induction n)
  case 0
  show ?case using assms by simp
next
  case (Suc n)
  then have "executionHistory ((stepBack_state ^^ n) v) = []" by simp
  from stepBack_empty[OF this] Suc show ?case by simp
qed

lemma fresh_steps_then_back:
  assumes "historyEnabled s" and "k \<le> maxHistorySize s" and "executionHistory s = []"
  shows "current_snapshot ((stepBack_state ^^ k) ((step_state ^^ k) s)) = current_snapshot s"
proof (cases "\<forall>i<k. instructionCount ((step_state ^^ i) s) < maxInstructions s")
  case True
  from steps_below_then_back[OF assms(1,2) True] assms(3) show ?thesis by simp
next
  case False
  define reached where
    "reached i \<longleftrightarrow> i < k \<and> maxInstructions s \<le> instructionCount ((step_state ^^ i) s)" for i
  define j where "j = (LEAST i. reached i)"
  from False have "\<exists>i. reached i" by (auto simp add: reached_def not_less)
  then have "reached j" unfolding j_def by (rule LeastI_ex)
  then have jk: "j < k" and limit: "maxInstructions s \<le> instructionCount ((step_state ^^ j) s)"
    by (simp_all add: reached_def)
  have below: "\<forall>i<j. instructionCount ((step_state ^^ i) s) < maxInstructions s"
  proof (intro allI impI)
    fix i assume "i < j"
    then have "\<not> reached i" unfolding j_def by (rule not_less_Least)
    with \<open>i < j\<close> jk show "instructionCount ((step_state ^^ i) s) < maxInstructions s"
      by (simp add: reached_def)
  qed
  let ?u = "(step_state ^^ j) s"
  have jm: "j \<le> maxHistorySize s" using jk assms(2) by simp
  from steps_below_then_back[OF assms(1) jm below] assms(3)
  have undone: "current_snapshot ((stepBack_state ^^ j) ?u) = current_snapshot s"
    "executionHistory ((stepBack_state ^^ j) ?u) = []"
    by simp_all
  have split: "k = (k - j) + j" using jk by simp
  have "(step_state ^^ k) s = (step_state ^^ (k - j)) ?u"
    by (subst split) (simp only: funpow_add o_apply)
  moreover have "maxInstructions ?u \<le> instructionCount ?u"
    using limit by (simp add: steps_config)
  ultimately have stuck: "current_snapshot ((step_state ^^ k) s) = current_snapshot ?u"
    "executionHistory ((step_state ^^ k) s) = executionHistory ?u"
    using steps_at_limit[of ?u "k - j"] by simp_all
  have "current_snapshot ((stepBack_state ^^ k) ((step_state ^^ k) s))
          = current_snapshot ((stepBack_state ^^ k) ?u)"
    using stepBacks_same_record[OF stuck] by simp
  also have "(stepBack_state ^^ k) ?u = (stepBack_state ^^ (k - j)) ((stepBack_state ^^ j) ?u)"
    by (subst split) (simp only: funpow_add o_apply)
  also have "current_snapshot \<dots> = current_snapshot ((stepBack_state ^^ j) ?u)"
    using stepBacks_empty[OF undone(2)] by simp
  finally show ?thesis using undone(1) by simp
qed

lemma load_tokens_keeps:
  "load_tokens tokens i s = Inr s' \<Longrightarrow>
   executionHistory s' = executionHistory s \<and> instructionCount s' = instructionCount s \<and>
   historyEnabled s' = historyEnabled s \<and> maxHistorySize s' = maxHistorySize s \<and>
   maxInstructions s' = maxInstructions s"
proof (induction tokens arbitrary: i s)
  case Nil
  then show ?case by simp
next
  case (Cons token tokens)
  show ?case
  proof (cases "i < length (memory s) \<and> validateTernary token")
    case False
    then show ?thesis using Cons.prems by (auto split: if_splits)
  next
    case True
    then obtain v where v: "fromBalancedTernary token = Inr (Finite v)"
      using Cons.prems
      by (cases "fromBalancedTernary token"; cases "projr (fromBalancedTernary token)") auto
    with True Cons.prems
    have "load_tokens tokens (i + 1) (s\<lparr>memory := (memory s)[i := v]\<rparr>) = Inr s'" by simp
    from Cons.IH[OF this] show ?thesis by simp
  qed
qed

lemma reset_fields:
  "executionHistory (reset s) = []" "instructionCount (reset s) = 0"
  "historyEnabled (reset s) = historyEnabled s" "maxHistorySize (reset s) = maxHistorySize s"
  "maxInstructions (reset s) = maxInstructions s"
  by (simp_all add: reset_def clearHistory_def Let_def fire_eqs)

lemma loadProgram_post:
  assumes "loadProgram programText e = Inr s"
  shows "executionHistory s = []" "instructionCount s = 0"
    "historyEnabled s = historyEnabled e" "maxHistorySize s = maxHistorySize e"
    "maxInstructions s = maxInstructions e"
proof -
  have "s = reset e \<or> (\<exists>tokens. load_tokens tokens 0 (reset e) = Inr s)"
    using assms by (auto simp add: loadProgram_def Let_def split: if_splits)
  then have "executionHistory s = [] \<and> instructionCount s = 0 \<and>
      historyEnabled s = historyEnabled e \<and> maxHistorySize s = maxHistorySize e \<and>
      maxInstructions s = maxInstructions e"
    by (auto simp add: reset_fields dest!: load_tokens_keeps)
  then show "executionHistory s = []" "instructionCount s = 0"
    "historyEnabled s = historyEnabled e" "maxHistorySize s = maxHistorySize e"
    "maxInstructions s = maxInstructions e" by simp_all
qed

lemma loop_text_limit:
  "loadProgram loop_text ((new_emulator 81)\<lparr>maxInstructions := m\<rparr>)
     = Inr (loop_loaded\<lparr>maxInstructions := m\<rparr>)"
proof -
  let ?e = "(new_emulator 81)\<lparr>maxInstructions := m\<rparr>"
  have tr: "trim loop_text = loop_text"
    by (simp add: loop_text_def trim_def is_space_def)
  have sp: "split_spaces loop_text = [[PLUS, ZERO, ZERO], [PLUS, ZERO], [ZERO]]"
    by (simp add: loop_text_def is_space_def split_spaces_def)
  have ne: "loop_text \<noteq> []" by (simp add: loop_text_def)
  have re: "reset ?e = ?e"
    by (simp add: reset_def clearHistory_def Let_def fire_eqs new_emulator_def)
  have va: "validateTernary [PLUS, ZERO, ZERO]" "validateTernary [PLUS, ZERO]"
    "validateTernary [ZERO]"
    by (simp_all add: validateTernary_def)
  have fr: "fromBalancedTernary [PLUS, ZERO, ZERO] = Inr (Finite 9)"
    "fromBalancedTernary [PLUS, ZERO] = Inr (Finite 3)"
    "fromBalancedTernary [ZERO] = Inr (Finite 0)"
    by (simp_all add: fromBalancedTernary_exact ternary_symbol_def symbol_digit_def)
  have "loadProgram loop_text ?e
          = load_tokens [[PLUS, ZERO, ZERO], [PLUS, ZERO], [ZERO]] 0 ?e"
    by (simp add: loadProgram_def Let_def tr sp ne re)
  also have "\<dots> = Inr (loop_loaded\<lparr>maxInstructions := m\<rparr>)"
    by (simp add: va fr loop_loaded_def new_emulator_def numeral_2_eq_2)
  finally show ?thesis .
qed

lemma loop_text_loaded: "loadProgram loop_text (new_emulator 81) = Inr loop_loaded"
proof -
  have "(new_emulator 81)\<lparr>maxInstructions := 10000\<rparr> = new_emulator 81"
    "loop_loaded\<lparr>maxInstructions := 10000\<rparr> = loop_loaded"
    by (simp_all add: loop_loaded_def new_emulator_def)
  with loop_text_limit[of 10000] show ?thesis by simp
qed

text \<open>
  C2 (as amended). For a loaded program, with history recording on, \<open>k\<close> calls of \<open>step\<close>
  from the state after loading followed by \<open>k\<close> calls of \<open>stepBack\<close> restore the
  accumulator, the program counter, the instruction register, the memory, the call stack
  and the instruction count, provided \<open>k\<close> does not exceed the history bound. Each
  \<open>stepBack\<close> on a history that is not empty restores every field of the snapshot it
  pops.
\<close>

theorem step_back_inverse:
  assumes "loadProgram programText e = Inr s" and "historyEnabled e"
    and "k \<le> maxHistorySize e"
  shows "accumulator ((stepBack_state ^^ k) ((step_state ^^ k) s)) = accumulator s \<and>
         programCounter ((stepBack_state ^^ k) ((step_state ^^ k) s)) = programCounter s \<and>
         instructionRegister ((stepBack_state ^^ k) ((step_state ^^ k) s))
           = instructionRegister s \<and>
         memory ((stepBack_state ^^ k) ((step_state ^^ k) s)) = memory s \<and>
         callStack ((stepBack_state ^^ k) ((step_state ^^ k) s)) = callStack s \<and>
         instructionCount ((stepBack_state ^^ k) ((step_state ^^ k) s)) = instructionCount s \<and>
         (executionHistory u \<noteq> [] \<longrightarrow>
            stepBack u = (True, stepBack_state u) \<and>
            current_snapshot (stepBack_state u) = last (executionHistory u))"
proof -
  let ?t = "(stepBack_state ^^ k) ((step_state ^^ k) s)"
  note post = loadProgram_post[OF assms(1)]
  have "current_snapshot ?t = current_snapshot s"
    using fresh_steps_then_back[of s k] assms(2,3) post by simp
  then have fields: "accumulator ?t = accumulator s \<and> programCounter ?t = programCounter s \<and>
      instructionRegister ?t = instructionRegister s \<and> memory ?t = memory s \<and>
      callStack ?t = callStack s \<and> instructionCount ?t = instructionCount s"
    by (simp add: current_snapshot_def)
  have pop: "executionHistory u \<noteq> [] \<longrightarrow>
      stepBack u = (True, stepBack_state u) \<and>
      current_snapshot (stepBack_state u) = last (executionHistory u)"
  proof
    assume ne: "executionHistory u \<noteq> []"
    then have "executionHistory u = butlast (executionHistory u) @ [last (executionHistory u)]"
      by simp
    from stepBack_restore(1)[OF this] ne
    show "stepBack u = (True, stepBack_state u) \<and>
      current_snapshot (stepBack_state u) = last (executionHistory u)"
      by (simp add: stepBack_state_def stepBack_def Let_def)
  qed
  from fields pop show ?thesis by simp
qed

theorem step_back_inverse_witness:
  "loadProgram loop_text (new_emulator 81) = Inr loop_loaded \<and>
   historyEnabled (new_emulator 81) \<and> 1000 \<le> maxHistorySize (new_emulator 81) \<and>
   accumulator ((stepBack_state ^^ 1000) ((step_state ^^ 1000) loop_loaded)) = 0 \<and>
   memory ((stepBack_state ^^ 1000) ((step_state ^^ 1000) loop_loaded)) = memory loop_loaded \<and>
   executionHistory (step_state loop_loaded) \<noteq> [] \<and>
   current_snapshot (stepBack_state (step_state loop_loaded))
     = last (executionHistory (step_state loop_loaded)) \<and>
   loadProgram loop_text ((new_emulator 81)\<lparr>maxInstructions := 2\<rparr>)
     = Inr (loop_loaded\<lparr>maxInstructions := 2\<rparr>) \<and>
   historyEnabled ((new_emulator 81)\<lparr>maxInstructions := 2\<rparr>) \<and>
   5 \<le> maxHistorySize ((new_emulator 81)\<lparr>maxInstructions := 2\<rparr>) \<and>
   accumulator ((stepBack_state ^^ 5) ((step_state ^^ 5) (loop_loaded\<lparr>maxInstructions := 2\<rparr>)))
     = 0"
proof -
  have hyp: "historyEnabled (new_emulator 81)" "1000 \<le> maxHistorySize (new_emulator 81)"
    by (simp_all add: new_emulator_def)
  have hyp2: "historyEnabled ((new_emulator 81)\<lparr>maxInstructions := 2\<rparr>)"
    "5 \<le> maxHistorySize ((new_emulator 81)\<lparr>maxInstructions := 2\<rparr>)"
    by (simp_all add: new_emulator_def)
  have acc: "accumulator loop_loaded = 0" "accumulator (loop_loaded\<lparr>maxInstructions := 2\<rparr>) = 0"
    by (simp_all add: loop_loaded_def new_emulator_def)
  have lt: "instructionCount loop_loaded < maxInstructions loop_loaded"
    by (simp add: loop_loaded_def new_emulator_def)
  have ne: "executionHistory (step_state loop_loaded) \<noteq> []"
    using step_state_history[OF lt]
    by (simp add: recorded_eq push_history_def loop_loaded_def new_emulator_def)
  note all = step_back_inverse[OF loop_text_loaded hyp, where u = "step_state loop_loaded"]
  note lim = step_back_inverse[OF loop_text_limit hyp2, where u = loop_loaded]
  from all have a: "accumulator ((stepBack_state ^^ 1000) ((step_state ^^ 1000) loop_loaded))
      = accumulator loop_loaded" by blast
  from all have m: "memory ((stepBack_state ^^ 1000) ((step_state ^^ 1000) loop_loaded))
      = memory loop_loaded" by blast
  from all ne have p: "current_snapshot (stepBack_state (step_state loop_loaded))
      = last (executionHistory (step_state loop_loaded))" by blast
  from lim have l: "accumulator ((stepBack_state ^^ 5) ((step_state ^^ 5)
      (loop_loaded\<lparr>maxInstructions := 2\<rparr>))) = accumulator (loop_loaded\<lparr>maxInstructions := 2\<rparr>)"
    by blast
  from loop_text_loaded loop_text_limit hyp hyp2 a m ne p l acc show ?thesis by simp
qed

theorem step_back_beyond_history:
  "loadProgram loop_text (new_emulator 81) = Inr loop_loaded \<and>
   accumulator loop_loaded = 0 \<and>
   accumulator ((stepBack_state ^^ 1001) ((step_state ^^ 1001) loop_loaded)) = 1"
proof -
  let ?s1 = "step_state loop_loaded"
  let ?u = "(stepBack_state ^^ 1000) ((step_state ^^ 1000) ?s1)"
  have lt: "instructionCount loop_loaded < maxInstructions loop_loaded"
    by (simp add: loop_loaded_def new_emulator_def)
  have acc0: "accumulator loop_loaded = 0" by (simp add: loop_loaded_def new_emulator_def)
  have nb: "programCounter loop_loaded \<notin> breakpoints loop_loaded"
    by (simp add: loop_loaded_def new_emulator_def)
  have im: "in_memory loop_loaded (programCounter loop_loaded)"
    by (simp add: loop_loaded_def new_emulator_def in_memory_def)
  have op: "memory loop_loaded ! nat (programCounter loop_loaded) = INC"
    by (simp add: loop_loaded_def new_emulator_def INC_def)
  have acc1: "accumulator ?s1 = 1"
    by (simp add: step_state_def step_fetch[OF lt nb im] op executeInstruction_def OPCODES
          exec_INC_def finish_def after_execute_fields[unfolded state_of_def] state_of_def
          recorded_eq acc0 split: sum.split prod.split)
  have h1: "executionHistory ?s1 = [current_snapshot loop_loaded]"
    using step_state_history[OF lt]
    by (simp add: recorded_eq push_history_def loop_loaded_def new_emulator_def)
  have en: "historyEnabled ?s1" and m: "maxHistorySize ?s1 = 1000"
    and mi: "maxInstructions ?s1 = 10000"
    by (simp_all add: step_state_config loop_loaded_def new_emulator_def)
  have ic: "instructionCount ?s1 \<le> 1"
    using step_state_count[of loop_loaded] by (simp add: loop_loaded_def new_emulator_def)
  from steps_then_back[of ?s1 1000] en m mi ic h1
  have u: "current_snapshot ?u = current_snapshot ?s1" "executionHistory ?u = []"
    by simp_all
  have "(stepBack_state ^^ 1001) ((step_state ^^ 1001) loop_loaded) = stepBack_state ?u"
  proof -
    have n: "(1001::nat) = Suc 1000" by simp
    have forth: "(step_state ^^ Suc j) x = (step_state ^^ j) (step_state x)" for j x
      by (simp add: funpow_swap1)
    have "(stepBack_state ^^ Suc j) y = stepBack_state ((stepBack_state ^^ j) y)" for j y
      by simp
    then show ?thesis by (simp only: n forth)
  qed
  moreover have "current_snapshot (stepBack_state ?u) = current_snapshot ?s1"
    using stepBack_empty(1)[OF u(2)] u(1) by simp
  then have "accumulator (stepBack_state ?u) = accumulator ?s1"
    by (simp add: current_snapshot_def)
  ultimately show ?thesis using acc1 acc0 loop_text_loaded by simp
qed

section \<open>Reset\<close>

text \<open>
  C9. \<open>reset\<close> puts the accumulator, the program counter and the instruction register to
  0, fills the memory with 0, empties the call stack, puts the instruction count to 0 and
  clears the execution history; the address breakpoints, the conditional breakpoints and
  the watches are as before.
\<close>

theorem reset_reinitializes:
  "accumulator (reset s) = 0 \<and> programCounter (reset s) = 0 \<and>
   instructionRegister (reset s) = 0 \<and>
   memory (reset s) = replicate (length (memory s)) 0 \<and>
   callStack (reset s) = [] \<and> instructionCount (reset s) = 0 \<and>
   executionHistory (reset s) = [] \<and>
   breakpoints (reset s) = breakpoints s \<and>
   conditionalBreakpoints (reset s) = conditionalBreakpoints s \<and>
   watches (reset s) = watches s"
  by (simp add: reset_def clearHistory_def Let_def fire_eqs)

section \<open>Single instructions\<close>

lemma executeInstruction_opcode:
  "executeInstruction CALL opd s = exec_CALL s"
  "executeInstruction RET opd s = exec_RET s"
  "executeInstruction STORE opd s = exec_STORE s"
  "executeInstruction STOREI opd s = exec_STOREI s"
  by (simp_all add: executeInstruction_def OPCODES)

lemma fetched_machine:
  "programCounter (fetched s) = programCounter s" "memory (fetched s) = memory s"
  "accumulator (fetched s) = accumulator s" "protectedMemory (fetched s) = protectedMemory s"
  "running (fetched s) = running s" "trace (fetched s) = trace s"
  "onHalt (fetched s) = onHalt s" "onError (fetched s) = onError s"
  "in_memory (fetched s) a = in_memory s a" "canWriteToMemory (fetched s) a = canWriteToMemory s a"
  by (simp_all add: fetched_def recorded_eq in_memory_def canWriteToMemory_def)

text \<open>
  C10. With the call stack below its maximal depth and the operand word inside memory,
  CALL pushes the address after its operand word whatever the operand is. When the
  operand is no address of the memory, the program counter is not redirected: after the
  instruction it is on the operand word, and after the whole step on the word that
  follows, with the call stack one entry longer.
\<close>

theorem call_pushes_unconditionally:
  assumes "length (callStack s) < maxCallDepth s"
    and "0 \<le> programCounter s" and "programCounter s + 1 < int (length (memory s))"
  shows "executeInstruction CALL operand s =
           Inr (True, s\<lparr>programCounter :=
                            (if in_memory s (memory s ! nat (programCounter s + 1))
                             then memory s ! nat (programCounter s + 1) - 1
                             else programCounter s + 1),
                          callStack := callStack s @ [programCounter s + 2]\<rparr>) \<and>
         (instructionCount s < maxInstructions s \<and> programCounter s \<notin> breakpoints s \<and>
          memory s ! nat (programCounter s) = CALL \<and>
          \<not> in_memory s (memory s ! nat (programCounter s + 1)) \<longrightarrow>
            callStack (step_state s) = callStack s @ [programCounter s + 2] \<and>
            programCounter (step_state s) = programCounter s + 2)"
proof -
  have ex: "exec_CALL t =
      Inr (True, t\<lparr>programCounter :=
                       (if in_memory t (memory t ! nat (programCounter t + 1))
                        then memory t ! nat (programCounter t + 1) - 1
                        else programCounter t + 1),
                     callStack := callStack t @ [programCounter t + 2]\<rparr>)"
    if "length (callStack t) < maxCallDepth t"
      "programCounter t + 1 < int (length (memory t))" for t
    using that by (simp add: exec_CALL_def Let_def in_memory_def)
  have one: "executeInstruction CALL operand s =
           Inr (True, s\<lparr>programCounter :=
                            (if in_memory s (memory s ! nat (programCounter s + 1))
                             then memory s ! nat (programCounter s + 1) - 1
                             else programCounter s + 1),
                          callStack := callStack s @ [programCounter s + 2]\<rparr>)"
    using ex[OF assms(1,3)] by (simp add: executeInstruction_opcode)
  have two: "callStack (step_state s) = callStack s @ [programCounter s + 2] \<and>
            programCounter (step_state s) = programCounter s + 2"
    if lt: "instructionCount s < maxInstructions s" and nb: "programCounter s \<notin> breakpoints s"
      and op: "memory s ! nat (programCounter s) = CALL"
      and out: "\<not> in_memory s (memory s ! nat (programCounter s + 1))"
  proof -
    have im: "in_memory s (programCounter s)" using assms(2,3) by (simp add: in_memory_def)
    have "step s = finish (exec_CALL (fetched s))"
      by (simp add: step_fetch[OF lt nb im] op executeInstruction_opcode fetched_def)
    also have "exec_CALL (fetched s) =
        Inr (True, (fetched s)\<lparr>programCounter := programCounter s + 1,
                                callStack := callStack s @ [programCounter s + 2]\<rparr>)"
      using ex[of "fetched s"] assms(1,3) out
      by (simp add: fetched_fields fetched_machine)
    finally show ?thesis
      by (simp add: step_state_def finish_def after_execute_fields)
  qed
  from one two show ?thesis by blast
qed

theorem call_pushes_unconditionally_witness:
  "length (callStack call_loaded) < maxCallDepth call_loaded \<and>
   0 \<le> programCounter call_loaded \<and>
   programCounter call_loaded + 1 < int (length (memory call_loaded)) \<and>
   instructionCount call_loaded < maxInstructions call_loaded \<and>
   programCounter call_loaded \<notin> breakpoints call_loaded \<and>
   memory call_loaded ! nat (programCounter call_loaded) = CALL \<and>
   \<not> in_memory call_loaded (memory call_loaded ! nat (programCounter call_loaded + 1)) \<and>
   callStack (step_state call_loaded) = [2] \<and> programCounter (step_state call_loaded) = 2"
proof -
  have hyp: "length (callStack call_loaded) < maxCallDepth call_loaded"
    "0 \<le> programCounter call_loaded"
    "programCounter call_loaded + 1 < int (length (memory call_loaded))"
    by (simp_all add: call_loaded_def new_emulator_def)
  have more: "instructionCount call_loaded < maxInstructions call_loaded"
    "programCounter call_loaded \<notin> breakpoints call_loaded"
    "memory call_loaded ! nat (programCounter call_loaded) = CALL"
    "\<not> in_memory call_loaded (memory call_loaded ! nat (programCounter call_loaded + 1))"
    by (simp_all add: call_loaded_def new_emulator_def CALL_def in_memory_def)
  have start: "callStack call_loaded = []" "programCounter call_loaded = 0"
    by (simp_all add: call_loaded_def new_emulator_def)
  from call_pushes_unconditionally[OF hyp, of None] hyp more start show ?thesis by simp
qed

lemma exec_STORE_protected:
  assumes "programCounter t + 1 < int (length (memory t))"
    and "in_memory t (memory t ! nat (programCounter t + 1))"
    and "memory t ! nat (programCounter t + 1) \<in> protectedMemory t"
  shows "exec_STORE t = Inl (ProtectedWrite (memory t ! nat (programCounter t + 1)),
                             t\<lparr>programCounter := programCounter t + 1\<rparr>)"
  using assms by (simp add: exec_STORE_def Let_def in_memory_def canWriteToMemory_def)

lemma exec_STOREI_protected:
  assumes "programCounter t + 1 < int (length (memory t))"
    and "in_memory t (memory t ! nat (programCounter t + 1))"
    and "in_memory t (memory t ! nat (memory t ! nat (programCounter t + 1)))"
    and "memory t ! nat (memory t ! nat (programCounter t + 1)) \<in> protectedMemory t"
  shows "exec_STOREI t =
           Inl (ProtectedWrite (memory t ! nat (memory t ! nat (programCounter t + 1))),
                t\<lparr>programCounter := programCounter t + 1\<rparr>)"
  using assms by (simp add: exec_STOREI_def Let_def in_memory_def canWriteToMemory_def)

lemma step_throws:
  assumes "instructionCount s < maxInstructions s" and "programCounter s \<notin> breakpoints s"
    and "in_memory s (programCounter s)"
    and "executeInstruction (memory s ! nat (programCounter s)) None (fetched s) =
           Inl (e, (fetched s)\<lparr>programCounter := programCounter s + 1\<rparr>)"
  shows "step s = Inl (e, step_state s) \<and> memory (step_state s) = memory s \<and>
         accumulator (step_state s) = accumulator s \<and> callStack (step_state s) = callStack s \<and>
         instructionCount (step_state s) = instructionCount s \<and>
         programCounter (step_state s) = programCounter s + 1"
proof -
  have "step s = Inl (e, (fetched s)\<lparr>programCounter := programCounter s + 1\<rparr>)"
    using step_fetch[OF assms(1-3)] assms(4) by (simp add: fetched_def finish_def)
  then show ?thesis
    by (simp add: step_state_def state_of_def fetched_fields fetched_machine)
qed

text \<open>
  C5. A STORE whose operand is an address of the memory that is write-protected, and a
  STOREI whose pointer leads to such an address, throw the protection error for that
  address; the state at the throw is the state before the instruction with the program
  counter moved onto the operand word, so the target word and everything else are as
  before. The step that runs the instruction throws the same error, with memory,
  accumulator, call stack and instruction count unchanged and the program counter
  on the operand word.
\<close>

theorem protected_store_raises:
  assumes "0 \<le> programCounter s" and "programCounter s + 1 < int (length (memory s))"
  shows "(let addr = memory s ! nat (programCounter s + 1) in
            in_memory s addr \<and> addr \<in> protectedMemory s \<longrightarrow>
              executeInstruction STORE operand s =
                Inl (ProtectedWrite addr, s\<lparr>programCounter := programCounter s + 1\<rparr>) \<and>
              (instructionCount s < maxInstructions s \<and> programCounter s \<notin> breakpoints s \<and>
               memory s ! nat (programCounter s) = STORE \<longrightarrow>
                 step s = Inl (ProtectedWrite addr, step_state s) \<and>
                 memory (step_state s) = memory s \<and>
                 accumulator (step_state s) = accumulator s \<and>
                 callStack (step_state s) = callStack s \<and>
                 instructionCount (step_state s) = instructionCount s \<and>
                 programCounter (step_state s) = programCounter s + 1)) \<and>
         (let pointerAddr = memory s ! nat (programCounter s + 1);
              actualAddr = memory s ! nat pointerAddr in
            in_memory s pointerAddr \<and> in_memory s actualAddr \<and>
            actualAddr \<in> protectedMemory s \<longrightarrow>
              executeInstruction STOREI operand s =
                Inl (ProtectedWrite actualAddr, s\<lparr>programCounter := programCounter s + 1\<rparr>) \<and>
              (instructionCount s < maxInstructions s \<and> programCounter s \<notin> breakpoints s \<and>
               memory s ! nat (programCounter s) = STOREI \<longrightarrow>
                 step s = Inl (ProtectedWrite actualAddr, step_state s) \<and>
                 memory (step_state s) = memory s \<and>
                 accumulator (step_state s) = accumulator s \<and>
                 callStack (step_state s) = callStack s \<and>
                 instructionCount (step_state s) = instructionCount s \<and>
                 programCounter (step_state s) = programCounter s + 1))"
proof -
  let ?addr = "memory s ! nat (programCounter s + 1)"
  let ?actual = "memory s ! nat ?addr"
  have im: "in_memory s (programCounter s)" using assms by (simp add: in_memory_def)
  have store: "executeInstruction STORE operand s =
                Inl (ProtectedWrite ?addr, s\<lparr>programCounter := programCounter s + 1\<rparr>)"
    if "in_memory s ?addr" "?addr \<in> protectedMemory s"
    using exec_STORE_protected[OF assms(2) that] by (simp add: executeInstruction_opcode)
  have store_step: "step s = Inl (ProtectedWrite ?addr, step_state s) \<and>
                 memory (step_state s) = memory s \<and>
                 accumulator (step_state s) = accumulator s \<and>
                 callStack (step_state s) = callStack s \<and>
                 instructionCount (step_state s) = instructionCount s \<and>
                 programCounter (step_state s) = programCounter s + 1"
    if t: "in_memory s ?addr" "?addr \<in> protectedMemory s"
      and lt: "instructionCount s < maxInstructions s"
      and nb: "programCounter s \<notin> breakpoints s"
      and op: "memory s ! nat (programCounter s) = STORE"
  proof -
    have "exec_STORE (fetched s) =
            Inl (ProtectedWrite ?addr, (fetched s)\<lparr>programCounter := programCounter s + 1\<rparr>)"
      using exec_STORE_protected[of "fetched s"] assms(2) t by (simp add: fetched_machine)
    then show ?thesis
      using step_throws[OF lt nb im, of "ProtectedWrite ?addr"]
      by (simp add: op executeInstruction_opcode)
  qed
  have storei: "executeInstruction STOREI operand s =
                Inl (ProtectedWrite ?actual, s\<lparr>programCounter := programCounter s + 1\<rparr>)"
    if "in_memory s ?addr" "in_memory s ?actual" "?actual \<in> protectedMemory s"
    using exec_STOREI_protected[OF assms(2) that] by (simp add: executeInstruction_opcode)
  have storei_step: "step s = Inl (ProtectedWrite ?actual, step_state s) \<and>
                 memory (step_state s) = memory s \<and>
                 accumulator (step_state s) = accumulator s \<and>
                 callStack (step_state s) = callStack s \<and>
                 instructionCount (step_state s) = instructionCount s \<and>
                 programCounter (step_state s) = programCounter s + 1"
    if t: "in_memory s ?addr" "in_memory s ?actual" "?actual \<in> protectedMemory s"
      and lt: "instructionCount s < maxInstructions s"
      and nb: "programCounter s \<notin> breakpoints s"
      and op: "memory s ! nat (programCounter s) = STOREI"
  proof -
    have "exec_STOREI (fetched s) =
            Inl (ProtectedWrite ?actual, (fetched s)\<lparr>programCounter := programCounter s + 1\<rparr>)"
      using exec_STOREI_protected[of "fetched s"] assms(2) t by (simp add: fetched_machine)
    then show ?thesis
      using step_throws[OF lt nb im, of "ProtectedWrite ?actual"]
      by (simp add: op executeInstruction_opcode)
  qed
  show ?thesis
    unfolding Let_def using store store_step storei storei_step by blast
qed

lemma protect_3:
  "protectedMemory (protectMemoryRange 3 3 store_loaded) = {3}"
  "protectedMemory (protectMemoryRange 3 3 storei_loaded) = {3}"
  by (simp_all add: protectMemoryRange_def store_loaded_def storei_loaded_def new_emulator_def)

lemma protect_3_fields:
  "programCounter (protectMemoryRange 3 3 store_loaded) = 0"
  "memory (protectMemoryRange 3 3 store_loaded) = (replicate 81 0)[0 := -2, 1 := 3]"
  "programCounter (protectMemoryRange 3 3 storei_loaded) = 0"
  "memory (protectMemoryRange 3 3 storei_loaded) = (replicate 81 0)[0 := -10, 1 := 2, 2 := 3]"
  "instructionCount (protectMemoryRange 3 3 store_loaded) = 0"
  "maxInstructions (protectMemoryRange 3 3 store_loaded) = 10000"
  "breakpoints (protectMemoryRange 3 3 store_loaded) = {}"
  by (simp_all add: protectMemoryRange_def store_loaded_def storei_loaded_def new_emulator_def)

theorem protected_store_raises_witness:
  "0 \<le> programCounter (protectMemoryRange 3 3 store_loaded) \<and>
   programCounter (protectMemoryRange 3 3 store_loaded) + 1
     < int (length (memory (protectMemoryRange 3 3 store_loaded))) \<and>
   memory (protectMemoryRange 3 3 store_loaded) ! 0 = STORE \<and>
   memory (protectMemoryRange 3 3 store_loaded) ! 1 = 3 \<and>
   in_memory (protectMemoryRange 3 3 store_loaded) 3 \<and>
   3 \<in> protectedMemory (protectMemoryRange 3 3 store_loaded) \<and>
   step (protectMemoryRange 3 3 store_loaded)
     = Inl (ProtectedWrite 3, step_state (protectMemoryRange 3 3 store_loaded)) \<and>
   memory (step_state (protectMemoryRange 3 3 store_loaded))
     = memory (protectMemoryRange 3 3 store_loaded) \<and>
   memory (protectMemoryRange 3 3 storei_loaded) ! 0 = STOREI \<and>
   executeInstruction STOREI None (protectMemoryRange 3 3 storei_loaded)
     = Inl (ProtectedWrite 3, (protectMemoryRange 3 3 storei_loaded)\<lparr>programCounter := 1\<rparr>)"
proof -
  let ?s = "protectMemoryRange 3 3 store_loaded"
  let ?i = "protectMemoryRange 3 3 storei_loaded"
  have hs: "0 \<le> programCounter ?s" "programCounter ?s + 1 < int (length (memory ?s))"
    and hi: "0 \<le> programCounter ?i" "programCounter ?i + 1 < int (length (memory ?i))"
    by (simp_all add: protect_3_fields)
  have ms: "memory ?s ! 0 = STORE" "memory ?s ! 1 = 3" "in_memory ?s 3"
    and mi: "memory ?i ! 0 = STOREI" "memory ?i ! 1 = 2" "memory ?i ! 2 = 3" "in_memory ?i 3"
      "in_memory ?i 2"
    by (simp_all add: protect_3_fields in_memory_def STORE_def STOREI_def)
  from protected_store_raises[OF hs, of None] protected_store_raises[OF hi, of None]
  show ?thesis
    using hs ms mi by (simp add: protect_3 protect_3_fields Let_def)
qed

section \<open>Halting steps\<close>

lemma ret_text_loaded: "loadProgram ret_text observed_emulator = Inr ret_loaded"
proof -
  have tr: "trim ret_text = ret_text"
    by (simp add: ret_text_def trim_def is_space_def)
  have sp: "split_spaces ret_text = [[HYPHEN, PLUS, HYPHEN]]"
    by (simp add: ret_text_def is_space_def split_spaces_def)
  have ne: "ret_text \<noteq> []" by (simp add: ret_text_def)
  have re: "reset observed_emulator = observed_emulator\<lparr>trace := [OnStateChange]\<rparr>"
    by (simp add: reset_def clearHistory_def Let_def fire_eqs observed_emulator_def
          new_emulator_def)
  have va: "validateTernary [HYPHEN, PLUS, HYPHEN]"
    by (simp add: validateTernary_def)
  have fr: "fromBalancedTernary [HYPHEN, PLUS, HYPHEN] = Inr (Finite (-7))"
    by (simp add: fromBalancedTernary_exact ternary_symbol_def symbol_digit_def)
  have "loadProgram ret_text observed_emulator
          = load_tokens [[HYPHEN, PLUS, HYPHEN]] 0 (observed_emulator\<lparr>trace := [OnStateChange]\<rparr>)"
    by (simp add: loadProgram_def Let_def tr sp ne re)
  also have "\<dots> = Inr ret_loaded"
    by (simp add: va fr ret_loaded_def observed_emulator_def new_emulator_def)
  finally show ?thesis .
qed

text \<open>
  C6 (as amended). A RET executed with an empty call stack ends the run: the step
  returns \<open>false\<close> with \<open>running\<close> off, and the callback that fires is \<open>onHalt\<close>, once, with
  the message of the empty call stack (when it is installed); \<open>onError\<close> does not fire.
\<close>

theorem empty_stack_return_halts:
  assumes "instructionCount s < maxInstructions s" and "programCounter s \<notin> breakpoints s"
    and "in_memory s (programCounter s)" and "memory s ! nat (programCounter s) = RET"
    and "callStack s = []"
  shows "executeInstruction RET operand s =
           Inr (False, fire_onHalt ReturnWithEmptyCallStack (s\<lparr>running := False\<rparr>)) \<and>
         step s = Inr (False, step_state s) \<and> \<not> running (step_state s) \<and>
         trace (step_state s) =
           trace s @ (if onHalt s then [OnHalt ReturnWithEmptyCallStack] else [])"
proof -
  have ex: "exec_RET t = Inr (False, fire_onHalt ReturnWithEmptyCallStack (t\<lparr>running := False\<rparr>))"
    if "callStack t = []" for t
    using that by (simp add: exec_RET_def)
  have "step s = finish (exec_RET (fetched s))"
    using step_fetch[OF assms(1-3)] by (simp add: assms(4) executeInstruction_opcode fetched_def)
  also have "\<dots> = Inr (False, fire_onHalt ReturnWithEmptyCallStack ((fetched s)\<lparr>running := False\<rparr>))"
    using ex[of "fetched s"] assms(5) by (simp add: fetched_fields finish_def)
  finally have st: "step s =
      Inr (False, fire_onHalt ReturnWithEmptyCallStack ((fetched s)\<lparr>running := False\<rparr>))" .
  then have "step s = Inr (False, step_state s)" "\<not> running (step_state s)"
    "trace (step_state s) = trace s @ (if onHalt s then [OnHalt ReturnWithEmptyCallStack] else [])"
    by (simp_all add: step_state_def state_of_def fire_eqs fetched_machine)
  with ex[OF assms(5)] show ?thesis by (simp add: executeInstruction_opcode)
qed

lemma ret_loaded_ready:
  "instructionCount ret_loaded < maxInstructions ret_loaded"
  "programCounter ret_loaded \<notin> breakpoints ret_loaded"
  "in_memory ret_loaded (programCounter ret_loaded)"
  "memory ret_loaded ! nat (programCounter ret_loaded) = RET"
  "callStack ret_loaded = []"
  by (simp_all add: ret_loaded_def observed_emulator_def new_emulator_def in_memory_def RET_def)

theorem empty_stack_return_halts_witness:
  "instructionCount ret_loaded < maxInstructions ret_loaded \<and>
   programCounter ret_loaded \<notin> breakpoints ret_loaded \<and>
   in_memory ret_loaded (programCounter ret_loaded) \<and>
   memory ret_loaded ! nat (programCounter ret_loaded) = RET \<and>
   callStack ret_loaded = [] \<and> onHalt ret_loaded \<and>
   step ret_loaded = Inr (False, step_state ret_loaded) \<and>
   \<not> running (step_state ret_loaded) \<and>
   trace (step_state ret_loaded) = trace ret_loaded @ [OnHalt ReturnWithEmptyCallStack]"
proof -
  have "onHalt ret_loaded"
    by (simp add: ret_loaded_def observed_emulator_def new_emulator_def)
  with empty_stack_return_halts[OF ret_loaded_ready, of None] ret_loaded_ready
  show ?thesis by simp
qed

theorem empty_stack_return_fires_onHalt:
  "loadProgram ret_text observed_emulator = Inr ret_loaded \<and>
   onError ret_loaded \<and> onHalt ret_loaded \<and>
   memory ret_loaded ! nat (programCounter ret_loaded) = RET \<and> callStack ret_loaded = [] \<and>
   trace ret_loaded = [OnStateChange] \<and>
   fst (projr (step ret_loaded)) = False \<and>
   trace (step_state ret_loaded) = [OnStateChange, OnHalt ReturnWithEmptyCallStack]"
proof -
  have cb: "onError ret_loaded" "onHalt ret_loaded" "trace ret_loaded = [OnStateChange]"
    by (simp_all add: ret_loaded_def observed_emulator_def new_emulator_def)
  have "step ret_loaded = finish (exec_RET (fetched ret_loaded))"
    using step_fetch[OF ret_loaded_ready(1-3)]
    by (simp add: ret_loaded_ready(4) executeInstruction_opcode fetched_def)
  also have "\<dots> = Inr (False, fire_onHalt ReturnWithEmptyCallStack
                              ((fetched ret_loaded)\<lparr>running := False\<rparr>))"
    by (simp add: exec_RET_def fetched_fields ret_loaded_ready(5) finish_def)
  finally have "step ret_loaded = Inr (False, fire_onHalt ReturnWithEmptyCallStack
                              ((fetched ret_loaded)\<lparr>running := False\<rparr>))" .
  then have "fst (projr (step ret_loaded)) = False"
    "trace (step_state ret_loaded) = [OnStateChange, OnHalt ReturnWithEmptyCallStack]"
    by (simp_all add: step_state_def state_of_def fire_eqs fetched_machine cb)
  with ret_text_loaded cb ret_loaded_ready show ?thesis by simp
qed

section \<open>Address breakpoints\<close>


lemma call_breakpoint:
  "addBreakpoint 0 call_loaded = (True, call_loaded\<lparr>breakpoints := {0}\<rparr>)"
  by (simp add: addBreakpoint_def call_loaded_def new_emulator_def)



lemma exec_same:
  "same_machine s t \<Longrightarrow> same_outcome (exec_HALT s) (exec_HALT t)"
  "same_machine s t \<Longrightarrow> same_outcome (exec_ADD s) (exec_ADD t)"
  "same_machine s t \<Longrightarrow> same_outcome (exec_SUB s) (exec_SUB t)"
  "same_machine s t \<Longrightarrow> same_outcome (exec_LOAD s) (exec_LOAD t)"
  "same_machine s t \<Longrightarrow> same_outcome (exec_STORE s) (exec_STORE t)"
  "same_machine s t \<Longrightarrow> same_outcome (exec_JMP s) (exec_JMP t)"
  "same_machine s t \<Longrightarrow> same_outcome (exec_JZ s) (exec_JZ t)"
  "same_machine s t \<Longrightarrow> same_outcome (exec_JNZ s) (exec_JNZ t)"
  "same_machine s t \<Longrightarrow> same_outcome (exec_JNP s) (exec_JNP t)"
  "same_machine s t \<Longrightarrow> same_outcome (exec_SHL s) (exec_SHL t)"
  "same_machine s t \<Longrightarrow> same_outcome (exec_SHR s) (exec_SHR t)"
  "same_machine s t \<Longrightarrow> same_outcome (exec_CALL s) (exec_CALL t)"
  "same_machine s t \<Longrightarrow> same_outcome (exec_RET s) (exec_RET t)"
  "same_machine s t \<Longrightarrow> same_outcome (exec_NEG s) (exec_NEG t)"
  "same_machine s t \<Longrightarrow> same_outcome (exec_INC s) (exec_INC t)"
  "same_machine s t \<Longrightarrow> same_outcome (exec_DEC s) (exec_DEC t)"
  "same_machine s t \<Longrightarrow> same_outcome (exec_LOADI s) (exec_LOADI t)"
  "same_machine s t \<Longrightarrow> same_outcome (exec_STOREI s) (exec_STOREI t)"
  by (simp_all add: same_machine_def same_outcome_def exec_defs Let_def fire_eqs count_access_eq
        in_memory_def canWriteToMemory_def)

lemma executeInstruction_same:
  assumes "same_machine s t"
  shows "same_outcome (executeInstruction opc opd s) (executeInstruction opc opd t)"
proof -
  have "same_outcome (Inr (True, s)) (Inr (True, t))"
    using assms by (simp add: same_outcome_def)
  then show ?thesis by (simp add: executeInstruction_def exec_same[OF assms])
qed

lemma check_conditions_same:
  "accumulator s = accumulator t \<Longrightarrow> memory s = memory t \<Longrightarrow>
   check_conditions s cs = check_conditions t cs"
  by (induction cs) (auto simp add: Let_def)

lemma after_execute_same:
  assumes "same_machine s t"
  shows "same_outcome (after_execute s) (after_execute t)"
proof -
  let ?s2 = "s\<lparr>programCounter := programCounter s + 1, instructionCount := instructionCount s + 1\<rparr>"
  let ?t2 = "t\<lparr>programCounter := programCounter t + 1, instructionCount := instructionCount t + 1\<rparr>"
  have "checkConditionalBreakpoints ?s2 = checkConditionalBreakpoints ?t2"
    using assms check_conditions_same[of ?s2 ?t2]
    by (simp add: checkConditionalBreakpoints_def same_machine_def)
  then show ?thesis
    using assms
    by (simp add: after_execute_def Let_def fire_eqs same_outcome_def same_machine_def
          split: option.split)
qed

lemma finish_same:
  assumes "same_outcome r r'"
  shows "same_outcome (finish r) (finish r')"
proof (cases r)
  case (Inl p)
  then obtain e s where r: "r = Inl (e, s)" by (cases p) simp
  with assms obtain s' where r': "r' = Inl (e, s')" and m: "same_machine s s'"
    by (cases r') (auto simp add: same_outcome_def)
  show ?thesis using m by (simp add: r r' finish_def same_outcome_def)
next
  case (Inr p)
  then obtain b s where r: "r = Inr (b, s)" by (cases p) simp
  with assms obtain s' where r': "r' = Inr (b, s')" and m: "same_machine s s'"
    by (cases r') (auto simp add: same_outcome_def)
  show ?thesis
    using m after_execute_same[OF m] by (simp add: r r' finish_def same_outcome_def)
qed

lemma fetched_same:
  "same_machine s t \<Longrightarrow> same_machine (fetched s) (fetched t)"
  by (simp add: same_machine_def fetched_def recorded_eq)

lemma step_same:
  assumes "same_machine s t"
  shows "same_outcome (step s) (step t)"
proof (cases "instructionCount s \<ge> maxInstructions s")
  case True
  then have "instructionCount t \<ge> maxInstructions t" using assms by (simp add: same_machine_def)
  with True assms show ?thesis
    by (simp add: step_limit fire_eqs same_outcome_def same_machine_def)
next
  case False
  then have lt: "instructionCount s < maxInstructions s"
    and lt': "instructionCount t < maxInstructions t"
    using assms by (simp_all add: same_machine_def)
  show ?thesis
  proof (cases "programCounter s \<in> breakpoints s")
    case True
    then have "programCounter t \<in> breakpoints t" using assms by (simp add: same_machine_def)
    with True lt lt' assms show ?thesis
      by (simp add: step_breakpoint fire_eqs recorded_eq same_outcome_def same_machine_def)
  next
    case nb: False
    then have nb': "programCounter t \<notin> breakpoints t" using assms by (simp add: same_machine_def)
    have im: "in_memory s (programCounter s) = in_memory t (programCounter t)"
      using assms by (simp add: same_machine_def in_memory_def)
    show ?thesis
    proof (cases "in_memory s (programCounter s)")
      case False
      with im nb nb' lt lt' assms show ?thesis
        by (simp add: step_out_of_bounds fire_eqs recorded_eq same_outcome_def same_machine_def)
    next
      case True
      with im have im': "in_memory t (programCounter t)" by simp
      have w: "memory s ! nat (programCounter s) = memory t ! nat (programCounter t)"
        using assms by (simp add: same_machine_def)
      have "same_outcome
              (executeInstruction (memory s ! nat (programCounter s)) None (fetched s))
              (executeInstruction (memory t ! nat (programCounter t)) None (fetched t))"
        unfolding w by (rule executeInstruction_same[OF fetched_same[OF assms]])
      then show ?thesis
        unfolding step_fetch[OF lt nb True] step_fetch[OF lt' nb' im'] fetched_def[symmetric]
        by (rule finish_same)
    qed
  qed
qed
lemma halted_at_breakpoint:
  assumes "instructionCount s < maxInstructions s" and "programCounter s \<in> breakpoints s"
  shows "step s = Inr (False, step_state s)" "hitBreakpoint (step_state s)"
    "\<not> running (step_state s)" "same_machine (step_state s) s"
  using step_breakpoint[OF assms]
  by (simp_all add: step_state_def state_of_def fire_eqs recorded_eq same_machine_def)

lemma halted_at_limit:
  assumes "maxInstructions s \<le> instructionCount s"
  shows "step s = Inr (False, step_state s)" "same_machine (step_state s) s"
  using step_limit[OF assms]
  by (simp_all add: step_state_def state_of_def fire_eqs same_machine_def)

lemma halted_unchanged:
  assumes "programCounter s \<in> breakpoints s"
  shows "step s = Inr (False, step_state s)" "same_machine (step_state s) s"
proof -
  have "step s = Inr (False, step_state s) \<and> same_machine (step_state s) s"
  proof (cases "instructionCount s < maxInstructions s")
    case True
    from halted_at_breakpoint[OF True assms] show ?thesis by simp
  next
    case False
    then have "maxInstructions s \<le> instructionCount s" by simp
    from halted_at_limit[OF this] show ?thesis by simp
  qed
  then show "step s = Inr (False, step_state s)" "same_machine (step_state s) s" by simp_all
qed

text \<open>
  C3 (as amended). With an address breakpoint at \<open>A\<close> and the program counter at \<open>A\<close>,
  \<open>step\<close> halts with the instruction at \<open>A\<close> not executed: accumulator, program counter,
  instruction register, memory, call stack and instruction count are unchanged. While
  the breakpoint stays set, the next \<open>step\<close> halts at \<open>A\<close> again in the same way. Once the
  breakpoint at \<open>A\<close> is removed, the next \<open>step\<close> has the outcome of a step taken from the
  state before the halt with that breakpoint removed. Below the instruction limit the
  halt is flagged as a breakpoint hit and that next \<open>step\<close> executes the instruction at
  \<open>A\<close> once: it fetches the word at \<open>A\<close> and calls \<open>executeInstruction\<close> on it. At the
  instruction limit it executes nothing: like every \<open>step\<close> there, it ends with the limit
  error.
\<close>

theorem breakpoint_exactness:
  assumes "programCounter s = A" and "A \<in> breakpoints s"
  shows "step s = Inr (False, step_state s) \<and>
         accumulator (step_state s) = accumulator s \<and>
         programCounter (step_state s) = A \<and>
         instructionRegister (step_state s) = instructionRegister s \<and>
         memory (step_state s) = memory s \<and> callStack (step_state s) = callStack s \<and>
         instructionCount (step_state s) = instructionCount s \<and>
         step (step_state s) = Inr (False, step_state (step_state s)) \<and>
         accumulator (step_state (step_state s)) = accumulator s \<and>
         programCounter (step_state (step_state s)) = A \<and>
         memory (step_state (step_state s)) = memory s \<and>
         callStack (step_state (step_state s)) = callStack s \<and>
         instructionCount (step_state (step_state s)) = instructionCount s \<and>
         same_outcome (step (snd (removeBreakpoint A (step_state s))))
                      (step (snd (removeBreakpoint A s))) \<and>
         (instructionCount s < maxInstructions s \<longrightarrow>
            hitBreakpoint (step_state s) \<and>
            (in_memory s A \<longrightarrow>
               step (snd (removeBreakpoint A (step_state s))) =
                 finish (executeInstruction (memory s ! nat A) None
                           (fetched (snd (removeBreakpoint A (step_state s))))))) \<and>
         (maxInstructions s \<le> instructionCount s \<longrightarrow>
            step (snd (removeBreakpoint A (step_state s))) =
              Inr (False, fire_onError InstructionLimitReached
                            ((snd (removeBreakpoint A (step_state s)))\<lparr>running := False\<rparr>)))"
proof -
  let ?s1 = "step_state s"
  let ?s2 = "step_state ?s1"
  let ?r = "snd (removeBreakpoint A ?s1)"
  have bp: "programCounter s \<in> breakpoints s" using assms by simp
  note first = halted_unchanged[OF bp]
  have m1: "accumulator ?s1 = accumulator s" "programCounter ?s1 = A"
    "instructionRegister ?s1 = instructionRegister s" "memory ?s1 = memory s"
    "callStack ?s1 = callStack s" "instructionCount ?s1 = instructionCount s"
    "breakpoints ?s1 = breakpoints s" "maxInstructions ?s1 = maxInstructions s"
    using first(2) assms(1) by (simp_all add: same_machine_def)
  have bp1: "programCounter ?s1 \<in> breakpoints ?s1" using assms(2) by (simp add: m1)
  note second = halted_unchanged[OF bp1]
  have m2: "accumulator ?s2 = accumulator s" "programCounter ?s2 = A"
    "memory ?s2 = memory s" "callStack ?s2 = callStack s"
    "instructionCount ?s2 = instructionCount s"
    using second(2) by (simp_all add: same_machine_def m1)
  have "same_machine ?r (snd (removeBreakpoint A s))"
    using first(2) by (simp add: same_machine_def removeBreakpoint_def)
  then have resumed: "same_outcome (step ?r) (step (snd (removeBreakpoint A s)))"
    by (rule step_same)
  have below: "hitBreakpoint ?s1 \<and>
      (in_memory s A \<longrightarrow>
         step ?r = finish (executeInstruction (memory s ! nat A) None (fetched ?r)))"
    if lt: "instructionCount s < maxInstructions s"
  proof -
    have lt1: "instructionCount ?s1 < maxInstructions ?s1" using lt by (simp add: m1)
    have "step ?r = finish (executeInstruction (memory s ! nat A) None (fetched ?r))"
      if im: "in_memory s A"
    proof -
      have r: "instructionCount ?r < maxInstructions ?r"
        "programCounter ?r \<notin> breakpoints ?r" "in_memory ?r (programCounter ?r)"
        "memory ?r ! nat (programCounter ?r) = memory s ! nat A"
        using lt1 im by (simp_all add: removeBreakpoint_def m1 in_memory_def)
      from step_fetch[OF r(1-3)] show ?thesis by (simp add: r(4) fetched_def)
    qed
    with halted_at_breakpoint(2)[OF lt bp] show ?thesis by simp
  qed
  have limit: "step ?r = Inr (False, fire_onError InstructionLimitReached (?r\<lparr>running := False\<rparr>))"
    if "maxInstructions s \<le> instructionCount s"
  proof -
    have "maxInstructions ?r \<le> instructionCount ?r"
      using that by (simp add: removeBreakpoint_def m1)
    then show ?thesis by (rule step_limit)
  qed
  from first(1) second(1) m1 m2 resumed below limit show ?thesis by simp
qed

lemma loop_breakpoint:
  "addBreakpoint 0 loop_loaded = (True, loop_loaded\<lparr>breakpoints := {0}\<rparr>)"
  by (simp add: addBreakpoint_def loop_loaded_def new_emulator_def)

lemma loop_breakpoint_ready:
  "programCounter (loop_loaded\<lparr>breakpoints := {0}\<rparr>) = 0"
  "0 \<in> breakpoints (loop_loaded\<lparr>breakpoints := {0}\<rparr>)"
  by (simp_all add: loop_loaded_def new_emulator_def)

lemma limit_loaded_step:
  "accumulator (step_state limit_loaded) = 1" "programCounter (step_state limit_loaded) = 1"
  "instructionCount (step_state limit_loaded) = 1" "maxInstructions (step_state limit_loaded) = 1"
  "length (memory (step_state limit_loaded)) = 81"
proof -
  have lt: "instructionCount limit_loaded < maxInstructions limit_loaded"
    by (simp add: limit_loaded_def loop_loaded_def new_emulator_def)
  have nb: "programCounter limit_loaded \<notin> breakpoints limit_loaded"
    by (simp add: limit_loaded_def loop_loaded_def new_emulator_def)
  have im: "in_memory limit_loaded (programCounter limit_loaded)"
    by (simp add: limit_loaded_def loop_loaded_def new_emulator_def in_memory_def)
  have op: "memory limit_loaded ! nat (programCounter limit_loaded) = INC"
    by (simp add: limit_loaded_def loop_loaded_def new_emulator_def INC_def)
  have start: "accumulator limit_loaded = 0" "programCounter limit_loaded = 0"
    "instructionCount limit_loaded = 0" "maxInstructions limit_loaded = 1"
    "length (memory limit_loaded) = 81"
    by (simp_all add: limit_loaded_def loop_loaded_def new_emulator_def)
  have "step_state limit_loaded
          = state_of (after_execute ((recorded limit_loaded)
              \<lparr>instructionRegister := INC, accumulator := accumulator limit_loaded + 1\<rparr>))"
    by (simp add: step_state_def step_fetch[OF lt nb im] op executeInstruction_def OPCODES
          exec_INC_def finish_def recorded_eq)
  then show "accumulator (step_state limit_loaded) = 1"
    "programCounter (step_state limit_loaded) = 1"
    "instructionCount (step_state limit_loaded) = 1"
    "maxInstructions (step_state limit_loaded) = 1"
    "length (memory (step_state limit_loaded)) = 81"
    by (simp_all add: after_execute_fields recorded_eq start)
qed

lemma limit_reached_ready:
  "programCounter limit_reached = 1" "1 \<in> breakpoints limit_reached"
  "maxInstructions limit_reached \<le> instructionCount limit_reached"
  "accumulator limit_reached = 1" "instructionCount limit_reached = 1"
  "addBreakpoint 1 (step_state limit_loaded) = (True, limit_reached)"
proof -
  have "breakpoints (step_state limit_loaded) = {}"
    by (simp add: step_state_config limit_loaded_def loop_loaded_def new_emulator_def)
  then show "addBreakpoint 1 (step_state limit_loaded) = (True, limit_reached)"
    by (simp add: addBreakpoint_def limit_reached_def limit_loaded_step)
qed (simp_all add: limit_reached_def limit_loaded_step)

theorem breakpoint_exactness_witness:
  "programCounter (loop_loaded\<lparr>breakpoints := {0}\<rparr>) = 0 \<and>
   0 \<in> breakpoints (loop_loaded\<lparr>breakpoints := {0}\<rparr>) \<and>
   instructionCount (loop_loaded\<lparr>breakpoints := {0}\<rparr>)
     < maxInstructions (loop_loaded\<lparr>breakpoints := {0}\<rparr>) \<and>
   in_memory (loop_loaded\<lparr>breakpoints := {0}\<rparr>) 0 \<and>
   step (loop_loaded\<lparr>breakpoints := {0}\<rparr>)
     = Inr (False, step_state (loop_loaded\<lparr>breakpoints := {0}\<rparr>)) \<and>
   hitBreakpoint (step_state (loop_loaded\<lparr>breakpoints := {0}\<rparr>)) \<and>
   accumulator (step_state (loop_loaded\<lparr>breakpoints := {0}\<rparr>)) = 0 \<and>
   same_outcome
     (step (snd (removeBreakpoint 0 (step_state (loop_loaded\<lparr>breakpoints := {0}\<rparr>)))))
     (step (snd (removeBreakpoint 0 (loop_loaded\<lparr>breakpoints := {0}\<rparr>)))) \<and>
   step (snd (removeBreakpoint 0 (step_state (loop_loaded\<lparr>breakpoints := {0}\<rparr>))))
     = finish (executeInstruction (memory (loop_loaded\<lparr>breakpoints := {0}\<rparr>) ! nat 0) None
         (fetched (snd (removeBreakpoint 0 (step_state (loop_loaded\<lparr>breakpoints := {0}\<rparr>)))))) \<and>
   programCounter limit_reached = 1 \<and> 1 \<in> breakpoints limit_reached \<and>
   maxInstructions limit_reached \<le> instructionCount limit_reached \<and>
   step limit_reached = Inr (False, step_state limit_reached) \<and>
   step (snd (removeBreakpoint 1 (step_state limit_reached)))
     = Inr (False, fire_onError InstructionLimitReached
         ((snd (removeBreakpoint 1 (step_state limit_reached)))\<lparr>running := False\<rparr>))"
proof -
  let ?b = "loop_loaded\<lparr>breakpoints := {0}\<rparr>"
  have im: "in_memory ?b 0" and acc: "accumulator ?b = 0"
    and lt: "instructionCount ?b < maxInstructions ?b"
    by (simp_all add: loop_loaded_def new_emulator_def in_memory_def)
  note exact = breakpoint_exactness[OF loop_breakpoint_ready]
  from exact have halt: "step ?b = Inr (False, step_state ?b)" by blast
  from exact lt have hit: "hitBreakpoint (step_state ?b)" by blast
  from exact have "accumulator (step_state ?b) = accumulator ?b" by blast
  with acc have same: "accumulator (step_state ?b) = 0" by simp
  from exact have resumed: "same_outcome (step (snd (removeBreakpoint 0 (step_state ?b))))
                                (step (snd (removeBreakpoint 0 ?b)))" by blast
  from exact lt im have executes: "step (snd (removeBreakpoint 0 (step_state ?b)))
     = finish (executeInstruction (memory ?b ! nat 0) None
         (fetched (snd (removeBreakpoint 0 (step_state ?b)))))" by blast
  note at_limit = breakpoint_exactness[OF limit_reached_ready(1,2)]
  from at_limit have halt': "step limit_reached = Inr (False, step_state limit_reached)"
    by blast
  from at_limit limit_reached_ready(3)
  have idle: "step (snd (removeBreakpoint 1 (step_state limit_reached)))
     = Inr (False, fire_onError InstructionLimitReached
         ((snd (removeBreakpoint 1 (step_state limit_reached)))\<lparr>running := False\<rparr>))"
    by blast
  show ?thesis
    by (intro conjI loop_breakpoint_ready lt im halt hit same resumed executes
          limit_reached_ready(1-3) halt' idle)
qed

theorem second_step_halts_again:
  "addBreakpoint 0 loop_loaded = (True, loop_loaded\<lparr>breakpoints := {0}\<rparr>) \<and>
   programCounter (loop_loaded\<lparr>breakpoints := {0}\<rparr>) = 0 \<and>
   memory (loop_loaded\<lparr>breakpoints := {0}\<rparr>) ! 0 = INC \<and>
   accumulator (loop_loaded\<lparr>breakpoints := {0}\<rparr>) = 0 \<and>
   fst (projr (step (loop_loaded\<lparr>breakpoints := {0}\<rparr>))) = False \<and>
   fst (projr (step (step_state (loop_loaded\<lparr>breakpoints := {0}\<rparr>)))) = False \<and>
   accumulator (step_state (step_state (loop_loaded\<lparr>breakpoints := {0}\<rparr>))) = 0 \<and>
   programCounter (step_state (step_state (loop_loaded\<lparr>breakpoints := {0}\<rparr>))) = 0 \<and>
   instructionCount (step_state (step_state (loop_loaded\<lparr>breakpoints := {0}\<rparr>))) = 0 \<and>
   loadProgram loop_text ((new_emulator 81)\<lparr>maxInstructions := 1\<rparr>) = Inr limit_loaded \<and>
   programCounter (step_state limit_loaded) = 1 \<and>
   instructionCount (step_state limit_loaded) = 1 \<and>
   maxInstructions (step_state limit_loaded) = 1 \<and>
   addBreakpoint 1 (step_state limit_loaded) = (True, limit_reached) \<and>
   fst (projr (step limit_reached)) = False \<and>
   fst (projr (step (snd (removeBreakpoint 1 (step_state limit_reached))))) = False \<and>
   programCounter (step_state (snd (removeBreakpoint 1 (step_state limit_reached)))) = 1 \<and>
   instructionCount (step_state (snd (removeBreakpoint 1 (step_state limit_reached)))) = 1"
proof -
  let ?b = "loop_loaded\<lparr>breakpoints := {0}\<rparr>"
  let ?b1 = "step_state ?b"
  have start: "programCounter ?b = 0" "memory ?b ! 0 = INC" "accumulator ?b = 0"
    "instructionCount ?b = 0" "breakpoints ?b = {0}" "maxInstructions ?b = 10000"
    by (simp_all add: loop_loaded_def new_emulator_def INC_def)
  have lt: "instructionCount ?b < maxInstructions ?b" and bp: "programCounter ?b \<in> breakpoints ?b"
    by (simp_all add: start)
  note first = halted_at_breakpoint[OF lt bp]
  have m1: "accumulator ?b1 = 0" "programCounter ?b1 = 0" "instructionCount ?b1 = 0"
    "breakpoints ?b1 = {0}" "maxInstructions ?b1 = 10000"
    using first(4) by (simp_all add: same_machine_def start)
  have lt1: "instructionCount ?b1 < maxInstructions ?b1"
    and bp1: "programCounter ?b1 \<in> breakpoints ?b1"
    by (simp_all add: m1)
  note second = halted_at_breakpoint[OF lt1 bp1]
  have m2: "accumulator (step_state ?b1) = 0" "programCounter (step_state ?b1) = 0"
    "instructionCount (step_state ?b1) = 0"
    using second(4) by (simp_all add: same_machine_def m1)
  have below: "addBreakpoint 0 loop_loaded = (True, ?b) \<and>
      programCounter ?b = 0 \<and> memory ?b ! 0 = INC \<and> accumulator ?b = 0 \<and>
      fst (projr (step ?b)) = False \<and> fst (projr (step ?b1)) = False \<and>
      accumulator (step_state ?b1) = 0 \<and> programCounter (step_state ?b1) = 0 \<and>
      instructionCount (step_state ?b1) = 0"
    using loop_breakpoint start first(1) second(1) m2 by simp
  let ?l1 = "step_state limit_reached"
  let ?r = "snd (removeBreakpoint 1 ?l1)"
  have loaded: "loadProgram loop_text ((new_emulator 81)\<lparr>maxInstructions := 1\<rparr>)
      = Inr limit_loaded"
    unfolding limit_loaded_def by (rule loop_text_limit)
  note halt = halted_at_limit[OF limit_reached_ready(3)]
  have l1: "programCounter ?l1 = 1" "instructionCount ?l1 = 1" "maxInstructions ?l1 = 1"
    using halt(2) limit_reached_ready
    by (simp_all add: same_machine_def limit_reached_def limit_loaded_step)
  have r: "programCounter ?r = 1" "instructionCount ?r = 1" "maxInstructions ?r = 1"
    by (simp_all add: removeBreakpoint_def l1)
  then have "maxInstructions ?r \<le> instructionCount ?r" by simp
  note halt_r = halted_at_limit[OF this]
  have after: "programCounter (step_state ?r) = 1" "instructionCount (step_state ?r) = 1"
    using halt_r(2) by (simp_all add: same_machine_def r)
  have limit: "loadProgram loop_text ((new_emulator 81)\<lparr>maxInstructions := 1\<rparr>)
        = Inr limit_loaded \<and>
      programCounter (step_state limit_loaded) = 1 \<and>
      instructionCount (step_state limit_loaded) = 1 \<and>
      maxInstructions (step_state limit_loaded) = 1 \<and>
      addBreakpoint 1 (step_state limit_loaded) = (True, limit_reached) \<and>
      fst (projr (step limit_reached)) = False \<and> fst (projr (step ?r)) = False \<and>
      programCounter (step_state ?r) = 1 \<and> instructionCount (step_state ?r) = 1"
    using loaded limit_loaded_step limit_reached_ready(6) halt(1) halt_r(1) after by simp
  from below limit show ?thesis by simp
qed

section \<open>Call and return\<close>

lemma stack_move_take:
  assumes "stack_move cs cs'" and "d \<le> length cs" and "d \<le> length cs'"
  shows "take d cs' = take d cs"
proof -
  from assms(1) consider "cs' = cs" | x where "cs' = cs @ [x]" | "cs' = butlast cs"
    by (auto simp add: stack_move_def)
  then show ?thesis
  proof cases
    case 1
    then show ?thesis by simp
  next
    case 2
    then show ?thesis using assms(2) by simp
  next
    case 3
    show ?thesis
    proof (cases "cs = []")
      case True
      then show ?thesis using 3 by simp
    next
      case False
      then have "0 < length cs" by simp
      moreover have "d \<le> length cs - 1" using assms(3) 3 by simp
      ultimately have "d < length cs" by arith
      then show ?thesis using 3 by (simp add: take_butlast)
    qed
  qed
qed

lemma run_keeps_frames:
  "(\<forall>j\<le>n. d \<le> length (callStack ((step_state ^^ j) s))) \<Longrightarrow>
   take d (callStack ((step_state ^^ n) s)) = take d (callStack s)"
proof (induction n)
  case 0
  show ?case by simp
next
  case (Suc n)
  let ?u = "(step_state ^^ n) s"
  have before: "d \<le> length (callStack ?u)" using Suc.prems by simp
  have after: "d \<le> length (callStack (step_state ?u))"
    using Suc.prems[rule_format, of "Suc n"] by simp
  have "take d (callStack ?u) = take d (callStack s)"
    using Suc.IH Suc.prems by simp
  moreover have "take d (callStack (step_state ?u)) = take d (callStack ?u)"
    using stack_move_take[OF step_state_stack before after] .
  ultimately show ?case by simp
qed

lemma call_step:
  assumes "instructionCount s < maxInstructions s" and "programCounter s \<notin> breakpoints s"
    and "0 \<le> programCounter s" and "programCounter s + 1 < int (length (memory s))"
    and "memory s ! nat (programCounter s) = CALL"
    and "length (callStack s) < maxCallDepth s"
    and "in_memory s (memory s ! nat (programCounter s + 1))"
  shows "programCounter (step_state s) = memory s ! nat (programCounter s + 1)"
    and "callStack (step_state s) = callStack s @ [programCounter s + 2]"
proof -
  have im: "in_memory s (programCounter s)" using assms(3,4) by (simp add: in_memory_def)
  have "step s = finish (exec_CALL (fetched s))"
    by (simp add: step_fetch[OF assms(1,2) im] assms(5) executeInstruction_opcode fetched_def)
  also have "exec_CALL (fetched s) =
      Inr (True, (fetched s)\<lparr>callStack := callStack s @ [programCounter s + 2],
                              programCounter := memory s ! nat (programCounter s + 1) - 1\<rparr>)"
    using assms(4,6,7)
    by (simp add: exec_CALL_def Let_def fetched_fields fetched_machine in_memory_def)
  finally have st: "step s = after_execute
      ((fetched s)\<lparr>callStack := callStack s @ [programCounter s + 2],
                    programCounter := memory s ! nat (programCounter s + 1) - 1\<rparr>)"
    by (simp add: finish_def)
  show "programCounter (step_state s) = memory s ! nat (programCounter s + 1)"
    and "callStack (step_state s) = callStack s @ [programCounter s + 2]"
    by (simp_all add: step_state_def st after_execute_fields)
qed

lemma ret_step:
  assumes "instructionCount t < maxInstructions t" and "programCounter t \<notin> breakpoints t"
    and "in_memory t (programCounter t)" and "memory t ! nat (programCounter t) = RET"
    and "callStack t = cs @ [r]"
  shows "programCounter (step_state t) = r" and "callStack (step_state t) = cs"
proof -
  have "step t = finish (exec_RET (fetched t))"
    by (simp add: step_fetch[OF assms(1-3)] assms(4) executeInstruction_opcode fetched_def)
  also have "exec_RET (fetched t) =
      Inr (True, (fetched t)\<lparr>programCounter := r - 1, callStack := cs\<rparr>)"
    using assms(5) by (simp add: exec_RET_def fetched_fields)
  finally have st: "step t = after_execute ((fetched t)\<lparr>programCounter := r - 1, callStack := cs\<rparr>)"
    by (simp add: finish_def)
  show "programCounter (step_state t) = r" and "callStack (step_state t) = cs"
    by (simp_all add: step_state_def st after_execute_fields)
qed

text \<open>
  C8. Let a CALL execute at a program counter \<open>p\<close>, with the call stack below its maximal
  depth, its operand word inside memory and its target an address of the memory: the
  step continues at the target with \<open>p + 2\<close> pushed. Let the run go on for any number
  \<open>n\<close> of steps during which the call stack never gets shorter than it was just after
  the call (nested calls and their returns), and let a RET then execute with the call
  stack at that length (the matching return). That step resumes at \<open>p + 2\<close>, the
  word after the operand word of the CALL, and leaves the call stack as it was before
  the CALL.
\<close>

theorem call_return_symmetry:
  assumes "instructionCount s < maxInstructions s" and "programCounter s \<notin> breakpoints s"
    and "0 \<le> programCounter s" and "programCounter s + 1 < int (length (memory s))"
    and "memory s ! nat (programCounter s) = CALL"
    and "length (callStack s) < maxCallDepth s"
    and "in_memory s (memory s ! nat (programCounter s + 1))"
    and "t = (step_state ^^ n) (step_state s)"
    and "\<forall>j\<le>n. length (callStack s) < length (callStack ((step_state ^^ j) (step_state s)))"
    and "length (callStack t) = length (callStack s) + 1"
    and "instructionCount t < maxInstructions t" and "programCounter t \<notin> breakpoints t"
    and "in_memory t (programCounter t)" and "memory t ! nat (programCounter t) = RET"
  shows "programCounter (step_state s) = memory s ! nat (programCounter s + 1) \<and>
         callStack (step_state s) = callStack s @ [programCounter s + 2] \<and>
         programCounter (step_state t) = programCounter s + 2 \<and>
         callStack (step_state t) = callStack s"
proof -
  let ?d = "length (callStack s) + 1"
  note called = call_step[OF assms(1-7)]
  have "\<forall>j\<le>n. ?d \<le> length (callStack ((step_state ^^ j) (step_state s)))"
    using assms(9) by auto
  from run_keeps_frames[OF this]
  have "take ?d (callStack t) = take ?d (callStack (step_state s))"
    by (simp add: assms(8))
  then have "callStack t = callStack s @ [programCounter s + 2]"
    using assms(10) called(2) by simp
  from ret_step[OF assms(11-14) this] called show ?thesis by simp
qed

lemma step_state_same:
  assumes "same_machine s t"
  shows "same_machine (step_state s) (step_state t)"
proof -
  have "same_machine (state_of r) (state_of r')" if "same_outcome r r'" for r r'
    using that by (auto simp add: same_outcome_def state_of_def split: sum.splits prod.splits)
  from this[OF step_same[OF assms]] show ?thesis by (simp add: step_state_def)
qed

lemma same_machine_trans:
  "same_machine a b \<Longrightarrow> same_machine b c \<Longrightarrow> same_machine a c"
  by (simp add: same_machine_def)

lemmas run_defs =
  step_state_def step_def state_of_def saveStateToHistory_eq decodeInstruction_def
  executeInstruction_def OPCODES exec_CALL_def exec_RET_def in_memory_def after_execute_def
  checkConditionalBreakpoints_def fire_eqs Let_def

lemma nested_run:
  "same_machine (step_state nested_loaded)
     (nested_loaded\<lparr>programCounter := 4, callStack := [2], instructionCount := 1,
                    instructionRegister := 7\<rparr>)"
  "same_machine
     (step_state (nested_loaded\<lparr>programCounter := 4, callStack := [2], instructionCount := 1,
                    instructionRegister := 7\<rparr>))
     (nested_loaded\<lparr>programCounter := 7, callStack := [2, 6], instructionCount := 2,
                    instructionRegister := 7\<rparr>)"
  "same_machine
     (step_state (nested_loaded\<lparr>programCounter := 7, callStack := [2, 6], instructionCount := 2,
                    instructionRegister := 7\<rparr>))
     (nested_loaded\<lparr>programCounter := 6, callStack := [2], instructionCount := 3,
                    instructionRegister := -7\<rparr>)"
  by (simp_all add: same_machine_def nested_loaded_def new_emulator_def run_defs)

theorem call_return_symmetry_witness:
  "instructionCount nested_loaded < maxInstructions nested_loaded \<and>
   programCounter nested_loaded \<notin> breakpoints nested_loaded \<and>
   0 \<le> programCounter nested_loaded \<and>
   programCounter nested_loaded + 1 < int (length (memory nested_loaded)) \<and>
   memory nested_loaded ! nat (programCounter nested_loaded) = CALL \<and>
   length (callStack nested_loaded) < maxCallDepth nested_loaded \<and>
   in_memory nested_loaded (memory nested_loaded ! nat (programCounter nested_loaded + 1)) \<and>
   callStack nested_loaded = [] \<and>
   callStack ((step_state ^^ 0) (step_state nested_loaded)) = [2] \<and>
   callStack ((step_state ^^ 1) (step_state nested_loaded)) = [2, 6] \<and>
   callStack ((step_state ^^ 2) (step_state nested_loaded)) = [2] \<and>
   memory ((step_state ^^ 2) (step_state nested_loaded))
     ! nat (programCounter ((step_state ^^ 2) (step_state nested_loaded))) = RET \<and>
   programCounter (step_state ((step_state ^^ 2) (step_state nested_loaded))) = 2 \<and>
   callStack (step_state ((step_state ^^ 2) (step_state nested_loaded))) = []"
proof -
  let ?w1 = "nested_loaded\<lparr>programCounter := 4, callStack := [2], instructionCount := 1,
                    instructionRegister := 7\<rparr>"
  let ?w2 = "nested_loaded\<lparr>programCounter := 7, callStack := [2, 6], instructionCount := 2,
                    instructionRegister := 7\<rparr>"
  let ?w3 = "nested_loaded\<lparr>programCounter := 6, callStack := [2], instructionCount := 3,
                    instructionRegister := -7\<rparr>"
  let ?u0 = "step_state nested_loaded"
  let ?u1 = "step_state ?u0"
  let ?u2 = "step_state ?u1"
  have pow: "(step_state ^^ 0) ?u0 = ?u0" "(step_state ^^ 1) ?u0 = ?u1"
    "(step_state ^^ 2) ?u0 = ?u2"
    by (simp_all add: numeral_2_eq_2)
  have m1: "same_machine ?u0 ?w1" by (rule nested_run(1))
  have m2: "same_machine ?u1 ?w2"
    by (rule same_machine_trans[OF step_state_same[OF m1] nested_run(2)])
  have m3: "same_machine ?u2 ?w3"
    by (rule same_machine_trans[OF step_state_same[OF m2] nested_run(3)])
  have call: "instructionCount nested_loaded < maxInstructions nested_loaded"
    "programCounter nested_loaded \<notin> breakpoints nested_loaded"
    "0 \<le> programCounter nested_loaded"
    "programCounter nested_loaded + 1 < int (length (memory nested_loaded))"
    "memory nested_loaded ! nat (programCounter nested_loaded) = CALL"
    "length (callStack nested_loaded) < maxCallDepth nested_loaded"
    "in_memory nested_loaded (memory nested_loaded ! nat (programCounter nested_loaded + 1))"
    by (simp_all add: nested_loaded_def new_emulator_def in_memory_def CALL_def)
  have start: "callStack nested_loaded = []" "programCounter nested_loaded = 0"
    by (simp_all add: nested_loaded_def new_emulator_def)
  have s0: "callStack ?u0 = [2]" using m1 by (simp add: same_machine_def)
  have s1: "callStack ?u1 = [2, 6]" using m2 by (simp add: same_machine_def)
  have s2: "callStack ?u2 = [2]" using m3 by (simp add: same_machine_def)
  have above: "\<forall>j\<le>2. length (callStack nested_loaded)
                 < length (callStack ((step_state ^^ j) ?u0))"
  proof (intro allI impI)
    fix j :: nat
    assume "j \<le> 2"
    then have "j = 0 \<or> j = 1 \<or> j = 2" by arith
    then show "length (callStack nested_loaded) < length (callStack ((step_state ^^ j) ?u0))"
      using s0 s1 s2 by (auto simp add: start pow)
  qed
  have ret: "length (callStack ((step_state ^^ 2) ?u0)) = length (callStack nested_loaded) + 1"
    "instructionCount ((step_state ^^ 2) ?u0) < maxInstructions ((step_state ^^ 2) ?u0)"
    "programCounter ((step_state ^^ 2) ?u0) \<notin> breakpoints ((step_state ^^ 2) ?u0)"
    "in_memory ((step_state ^^ 2) ?u0) (programCounter ((step_state ^^ 2) ?u0))"
    "memory ((step_state ^^ 2) ?u0) ! nat (programCounter ((step_state ^^ 2) ?u0)) = RET"
    unfolding pow using m3 s2
    by (simp_all add: same_machine_def start nested_loaded_def new_emulator_def in_memory_def
          RET_def)
  from call_return_symmetry[OF call refl above ret]
  have "programCounter (step_state ((step_state ^^ 2) ?u0)) = programCounter nested_loaded + 2"
    "callStack (step_state ((step_state ^^ 2) ?u0)) = callStack nested_loaded"
    by blast+
  then have "programCounter (step_state ((step_state ^^ 2) ?u0)) = 2"
    "callStack (step_state ((step_state ^^ 2) ?u0)) = []"
    by (simp_all add: start)
  moreover have "callStack ((step_state ^^ 0) ?u0) = [2]"
    "callStack ((step_state ^^ 1) ?u0) = [2, 6]"
    "callStack ((step_state ^^ 2) ?u0) = [2]"
    unfolding pow using s0 s1 s2 by simp_all
  ultimately show ?thesis using call start(1) ret(5) by blast
qed

section \<open>Parsing balanced ternary\<close>








section \<open>The example programs are what loading gives\<close>

lemma reset_new_emulator: "reset (new_emulator 81) = new_emulator 81"
  by (simp add: reset_def clearHistory_def Let_def fire_eqs new_emulator_def)

lemma example_tokens:
  "validateTernary [PLUS, HYPHEN, PLUS]"
  "fromBalancedTernary [PLUS, HYPHEN, PLUS] = Inr (Finite 7)"
  "validateTernary [HYPHEN]" "fromBalancedTernary [HYPHEN] = Inr (Finite (-1))"
  "validateTernary [HYPHEN, PLUS]" "fromBalancedTernary [HYPHEN, PLUS] = Inr (Finite (-2))"
  "validateTernary [PLUS, ZERO]" "fromBalancedTernary [PLUS, ZERO] = Inr (Finite 3)"
  "validateTernary [HYPHEN, ZERO, HYPHEN]"
  "fromBalancedTernary [HYPHEN, ZERO, HYPHEN] = Inr (Finite (-10))"
  "validateTernary [PLUS, HYPHEN]" "fromBalancedTernary [PLUS, HYPHEN] = Inr (Finite 2)"
  "validateTernary [PLUS, PLUS]" "fromBalancedTernary [PLUS, PLUS] = Inr (Finite 4)"
  "validateTernary [ZERO]" "fromBalancedTernary [ZERO] = Inr (Finite 0)"
  "validateTernary [HYPHEN, PLUS, HYPHEN]"
  "fromBalancedTernary [HYPHEN, PLUS, HYPHEN] = Inr (Finite (-7))"
  by (simp_all add: validateTernary_def fromBalancedTernary_exact ternary_symbol_def
        symbol_digit_def)

lemma call_text_loaded: "loadProgram call_text (new_emulator 81) = Inr call_loaded"
proof -
  have tr: "trim call_text = call_text" and ne: "call_text \<noteq> []"
    by (simp_all add: call_text_def trim_def is_space_def)
  have sp: "split_spaces call_text = [[PLUS, HYPHEN, PLUS], [HYPHEN]]"
    by (simp add: call_text_def is_space_def split_spaces_def)
  have "loadProgram call_text (new_emulator 81)
          = load_tokens [[PLUS, HYPHEN, PLUS], [HYPHEN]] 0 (new_emulator 81)"
    by (simp add: loadProgram_def Let_def tr sp ne reset_new_emulator)
  also have "\<dots> = Inr call_loaded"
    by (simp add: example_tokens call_loaded_def new_emulator_def)
  finally show ?thesis .
qed

lemma store_text_loaded: "loadProgram store_text (new_emulator 81) = Inr store_loaded"
proof -
  have tr: "trim store_text = store_text" and ne: "store_text \<noteq> []"
    by (simp_all add: store_text_def trim_def is_space_def)
  have sp: "split_spaces store_text = [[HYPHEN, PLUS], [PLUS, ZERO]]"
    by (simp add: store_text_def is_space_def split_spaces_def)
  have "loadProgram store_text (new_emulator 81)
          = load_tokens [[HYPHEN, PLUS], [PLUS, ZERO]] 0 (new_emulator 81)"
    by (simp add: loadProgram_def Let_def tr sp ne reset_new_emulator)
  also have "\<dots> = Inr store_loaded"
    by (simp add: example_tokens store_loaded_def new_emulator_def)
  finally show ?thesis .
qed

lemma storei_text_loaded: "loadProgram storei_text (new_emulator 81) = Inr storei_loaded"
proof -
  have tr: "trim storei_text = storei_text" and ne: "storei_text \<noteq> []"
    by (simp_all add: storei_text_def trim_def is_space_def)
  have sp: "split_spaces storei_text = [[HYPHEN, ZERO, HYPHEN], [PLUS, HYPHEN], [PLUS, ZERO]]"
    by (simp add: storei_text_def is_space_def split_spaces_def)
  have "loadProgram storei_text (new_emulator 81)
          = load_tokens [[HYPHEN, ZERO, HYPHEN], [PLUS, HYPHEN], [PLUS, ZERO]] 0 (new_emulator 81)"
    by (simp add: loadProgram_def Let_def tr sp ne reset_new_emulator)
  also have "\<dots> = Inr storei_loaded"
    by (simp add: example_tokens storei_loaded_def new_emulator_def numeral_2_eq_2)
  finally show ?thesis .
qed

lemma nested_text_loaded: "loadProgram nested_text (new_emulator 81) = Inr nested_loaded"
proof -
  have tr: "trim nested_text = nested_text" and ne: "nested_text \<noteq> []"
    by (simp_all add: nested_text_def trim_def is_space_def)
  have sp: "split_spaces nested_text =
      [[PLUS, HYPHEN, PLUS], [PLUS, PLUS], [ZERO], [ZERO], [PLUS, HYPHEN, PLUS],
       [PLUS, HYPHEN, PLUS], [HYPHEN, PLUS, HYPHEN], [HYPHEN, PLUS, HYPHEN]]"
    by (simp add: nested_text_def is_space_def split_spaces_def)
  have "loadProgram nested_text (new_emulator 81)
          = load_tokens [[PLUS, HYPHEN, PLUS], [PLUS, PLUS], [ZERO], [ZERO], [PLUS, HYPHEN, PLUS],
               [PLUS, HYPHEN, PLUS], [HYPHEN, PLUS, HYPHEN], [HYPHEN, PLUS, HYPHEN]] 0
              (new_emulator 81)"
    by (simp add: loadProgram_def Let_def tr sp ne reset_new_emulator)
  also have "\<dots> = Inr nested_loaded"
    by (simp add: example_tokens nested_loaded_def new_emulator_def numeral_2_eq_2[symmetric])
  finally show ?thesis .
qed

end
